(* ===== verification/Prelude.thy ===== *)
theory Prelude
  imports Main "HOL-Library.List_Lexorder" "HOL-Library.Char_ord" "HOL-Library.Sublist"
begin

text \<open>
  The part of Rust and of its standard library that the components share.

  \<^item> \<open>Result\<close> is the sum type with \<open>Inl\<close> for \<open>Err\<close>; the \<open>?\<close> operator is \<open>and_then\<close>,
    and \<open>ok_or\<close>, \<open>map_err\<close> and \<open>collect_results\<close> are the methods of the same name.
  \<^item> A \<open>String\<close> is a list of characters. A character of HOL stands for one Unicode
    scalar value in the range U+0000 to U+00FF; \<open>utf8_len\<close> gives its length in bytes, so
    \<open>str::len\<close> (bytes) and \<open>chars().count()\<close> (characters) stay distinct. The order of
    strings is the order of their scalar values, which is the byte order of UTF-8.
  \<^item> \<open>u64\<close>, \<open>usize\<close> (64 bits) and \<open>u32\<close> counters are natural numbers; checked and
    saturating operations write their bound out.
\<close>

section \<open>Collections of proof rules\<close>

named_theorems result_simps
  \<open>equations of the result combinators\<close>

named_theorems rust_str
  \<open>definitions of the character and string functions, for evaluation\<close>

section \<open>Results\<close>

fun and_then :: "'e + 'a \<Rightarrow> ('a \<Rightarrow> 'e + 'b) \<Rightarrow> 'e + 'b" where
  "and_then (Inl e) f = Inl e"
| "and_then (Inr x) f = f x"

fun ok_or :: "'a option \<Rightarrow> 'e \<Rightarrow> 'e + 'a" where
  "ok_or None e = Inl e"
| "ok_or (Some x) e = Inr x"

fun map_err :: "('e \<Rightarrow> 'f) \<Rightarrow> 'e + 'a \<Rightarrow> 'f + 'a" where
  "map_err f (Inl e) = Inl (f e)"
| "map_err f (Inr x) = Inr x"

definition ensure :: "bool \<Rightarrow> 'e \<Rightarrow> 'e + unit" where
  "ensure b e = (if b then Inr () else Inl e)"

fun is_ok :: "'e + 'a \<Rightarrow> bool" where
  "is_ok (Inl e) = False"
| "is_ok (Inr x) = True"

primrec collect_results :: "('e + 'a) list \<Rightarrow> 'e + 'a list" where
  "collect_results [] = Inr []"
| "collect_results (r # rs) =
     and_then r (\<lambda>x. and_then (collect_results rs) (\<lambda>xs. Inr (x # xs)))"

fun for_each :: "('a \<Rightarrow> 'e + unit) \<Rightarrow> 'a list \<Rightarrow> 'e + unit" where
  \<comment> \<open>a \<open>for\<close> loop whose body may return an error\<close>
  "for_each f [] = Inr ()"
| "for_each f (x # xs) = and_then (f x) (\<lambda>_. for_each f xs)"

lemma and_then_Inr_iff [result_simps]:
  "and_then r f = Inr y \<longleftrightarrow> (\<exists>x. r = Inr x \<and> f x = Inr y)"
  by (cases r) auto

lemma for_each_Inr_iff: "for_each f xs = Inr () \<longleftrightarrow> (\<forall>x\<in>set xs. f x = Inr ())"
  by (induction xs) (auto simp: and_then_Inr_iff)

lemma and_then_Inl_iff:
  "and_then r f = Inl e \<longleftrightarrow> r = Inl e \<or> (\<exists>x. r = Inr x \<and> f x = Inl e)"
  by (cases r) auto

lemma ok_or_Inr_iff [result_simps]: "ok_or v e = Inr x \<longleftrightarrow> v = Some x"
  by (cases v) auto

lemma ok_or_Inl_iff: "ok_or v e = Inl e' \<longleftrightarrow> v = None \<and> e' = e"
  by (cases v) auto

lemma map_err_Inr_iff [result_simps]: "map_err f r = Inr x \<longleftrightarrow> r = Inr x"
  by (cases r) auto

lemma ensure_Inr_iff [result_simps]: "ensure b e = Inr u \<longleftrightarrow> b"
  by (simp add: ensure_def)

lemma ensure_simps [simp]: "ensure True e = Inr ()" "ensure False e = Inl e"
  by (simp_all add: ensure_def)

lemma is_ok_iff: "is_ok r \<longleftrightarrow> (\<exists>x. r = Inr x)"
  by (cases r) auto

lemma and_then_cong [fundef_cong]:
  "r = r' \<Longrightarrow> (\<And>x. r' = Inr x \<Longrightarrow> f x = g x) \<Longrightarrow> and_then r f = and_then r' g"
  by (cases r') auto

lemma collect_results_Inr_iff:
  "collect_results rs = Inr xs \<longleftrightarrow> rs = map Inr xs"
  by (induction rs arbitrary: xs) (auto simp: result_simps Cons_eq_map_conv)

lemma collect_results_map_Inr [simp]: "collect_results (map Inr xs) = Inr xs"
  by (simp add: collect_results_Inr_iff)

section \<open>Bounded integers\<close>

abbreviation (input) U64_MAX :: nat where "U64_MAX \<equiv> 18446744073709551615"

abbreviation (input) U32_MAX :: nat where "U32_MAX \<equiv> 4294967295"

definition checked_add_u64 :: "nat \<Rightarrow> nat \<Rightarrow> nat option" where
  "checked_add_u64 a b = (if a + b \<le> U64_MAX then Some (a + b) else None)"

definition checked_add_u32 :: "nat \<Rightarrow> nat \<Rightarrow> nat option" where
  "checked_add_u32 a b = (if a + b \<le> U32_MAX then Some (a + b) else None)"

lemma checked_add_u64_Some [simp]:
  "checked_add_u64 a b = Some c \<longleftrightarrow> c = a + b \<and> a + b \<le> U64_MAX"
  by (auto simp: checked_add_u64_def)

lemma checked_add_u32_Some [simp]:
  "checked_add_u32 a b = Some c \<longleftrightarrow> c = a + b \<and> a + b \<le> U32_MAX"
  by (auto simp: checked_add_u32_def)

section \<open>Characters\<close>

abbreviation code_point :: "char \<Rightarrow> nat" where "code_point c \<equiv> of_char c"

definition utf8_len :: "char \<Rightarrow> nat" where [rust_str]:
  "utf8_len c = (if code_point c < 128 then 1 else 2)"

definition is_ascii_digit :: "char \<Rightarrow> bool" where [rust_str]:
  "is_ascii_digit c \<longleftrightarrow> 48 \<le> code_point c \<and> code_point c \<le> 57"

definition is_ascii_uppercase :: "char \<Rightarrow> bool" where [rust_str]:
  "is_ascii_uppercase c \<longleftrightarrow> 65 \<le> code_point c \<and> code_point c \<le> 90"

definition is_ascii_lowercase :: "char \<Rightarrow> bool" where [rust_str]:
  "is_ascii_lowercase c \<longleftrightarrow> 97 \<le> code_point c \<and> code_point c \<le> 122"

definition is_ascii_alphabetic :: "char \<Rightarrow> bool" where [rust_str]:
  "is_ascii_alphabetic c \<longleftrightarrow> is_ascii_uppercase c \<or> is_ascii_lowercase c"

definition is_ascii_alphanumeric :: "char \<Rightarrow> bool" where [rust_str]:
  "is_ascii_alphanumeric c \<longleftrightarrow> is_ascii_alphabetic c \<or> is_ascii_digit c"

definition is_ascii_hexdigit :: "char \<Rightarrow> bool" where [rust_str]:
  "is_ascii_hexdigit c \<longleftrightarrow> is_ascii_digit c
     \<or> 65 \<le> code_point c \<and> code_point c \<le> 70 \<or> 97 \<le> code_point c \<and> code_point c \<le> 102"

definition is_whitespace :: "char \<Rightarrow> bool" where [rust_str]:
  \<comment> \<open>Unicode \<open>White_Space\<close>, restricted to U+0000 to U+00FF\<close>
  "is_whitespace c \<longleftrightarrow> 9 \<le> code_point c \<and> code_point c \<le> 13 \<or> code_point c = 32
     \<or> code_point c = 133 \<or> code_point c = 160"

definition to_ascii_lowercase_char :: "char \<Rightarrow> char" where [rust_str]:
  "to_ascii_lowercase_char c = (if is_ascii_uppercase c then char_of (code_point c + 32) else c)"

definition to_ascii_uppercase_char :: "char \<Rightarrow> char" where [rust_str]:
  "to_ascii_uppercase_char c = (if is_ascii_lowercase c then char_of (code_point c - 32) else c)"

lemma utf8_len_bounds: "1 \<le> utf8_len c" "utf8_len c \<le> 2"
  by (simp_all add: utf8_len_def)

section \<open>Strings\<close>

definition byte_len :: "string \<Rightarrow> nat" where [rust_str]:
  "byte_len s = sum_list (map utf8_len s)"

definition to_ascii_lowercase :: "string \<Rightarrow> string" where [rust_str]:
  "to_ascii_lowercase s = map to_ascii_lowercase_char s"

definition to_ascii_uppercase :: "string \<Rightarrow> string" where [rust_str]:
  "to_ascii_uppercase s = map to_ascii_uppercase_char s"

definition eq_ignore_ascii_case :: "string \<Rightarrow> string \<Rightarrow> bool" where [rust_str]:
  "eq_ignore_ascii_case a b \<longleftrightarrow> to_ascii_lowercase a = to_ascii_lowercase b"

fun strip_prefix :: "string \<Rightarrow> string \<Rightarrow> string option" where
  "strip_prefix [] s = Some s"
| "strip_prefix (p # ps) [] = None"
| "strip_prefix (p # ps) (c # cs) = (if p = c then strip_prefix ps cs else None)"

definition starts_with :: "string \<Rightarrow> string \<Rightarrow> bool" where [rust_str]:
  "starts_with s p \<longleftrightarrow> strip_prefix p s \<noteq> None"

definition strip_suffix :: "string \<Rightarrow> string \<Rightarrow> string option" where [rust_str]:
  "strip_suffix p s = map_option rev (strip_prefix (rev p) (rev s))"

definition ends_with :: "string \<Rightarrow> string \<Rightarrow> bool" where [rust_str]:
  "ends_with s p \<longleftrightarrow> strip_suffix p s \<noteq> None"

fun contains_str :: "string \<Rightarrow> string \<Rightarrow> bool" where
  "contains_str [] p = (p = [])"
| "contains_str (c # cs) p = (starts_with (c # cs) p \<or> contains_str cs p)"

fun split_char :: "(char \<Rightarrow> bool) \<Rightarrow> string \<Rightarrow> string list" where
  \<comment> \<open>\<open>str::split\<close> with a character predicate\<close>
  "split_char P [] = [[]]"
| "split_char P (c # cs) =
     (if P c then [] # split_char P cs
      else (case split_char P cs of [] \<Rightarrow> [[c]] | w # ws \<Rightarrow> (c # w) # ws))"

fun split_once_char :: "char \<Rightarrow> string \<Rightarrow> (string \<times> string) option" where
  "split_once_char d [] = None"
| "split_once_char d (c # cs) =
     (if c = d then Some ([], cs)
      else map_option (\<lambda>(a, b). (c # a, b)) (split_once_char d cs))"

fun join_with :: "string \<Rightarrow> string list \<Rightarrow> string" where
  "join_with sep [] = []"
| "join_with sep [w] = w"
| "join_with sep (w # v # ws) = w @ sep @ join_with sep (v # ws)"

definition trim_start :: "string \<Rightarrow> string" where [rust_str]:
  "trim_start s = dropWhile is_whitespace s"

definition trim :: "string \<Rightarrow> string" where [rust_str]:
  "trim s = rev (dropWhile is_whitespace (rev (dropWhile is_whitespace s)))"

lemma byte_len_simps [simp]:
  "byte_len [] = 0" "byte_len (c # s) = utf8_len c + byte_len s"
  "byte_len (s @ t) = byte_len s + byte_len t"
  by (simp_all add: byte_len_def)

lemma length_le_byte_len: "length s \<le> byte_len s"
proof (induction s)
  case (Cons c s)
  then show ?case using utf8_len_bounds(1) [of c] by (simp del: One_nat_def)
qed simp

lemma strip_prefix_Some_iff: "strip_prefix p s = Some r \<longleftrightarrow> s = p @ r"
  by (induction p s rule: strip_prefix.induct) auto

lemma strip_prefix_append [simp]: "strip_prefix p (p @ r) = Some r"
  by (simp add: strip_prefix_Some_iff)

lemma starts_with_iff: "starts_with s p \<longleftrightarrow> (\<exists>r. s = p @ r)"
  by (simp add: starts_with_def strip_prefix_Some_iff)

lemma strip_suffix_Some_iff: "strip_suffix p s = Some r \<longleftrightarrow> s = r @ p"
proof -
  have "strip_suffix p s = Some r \<longleftrightarrow> strip_prefix (rev p) (rev s) = Some (rev r)"
    by (auto simp: strip_suffix_def)
  also have "\<dots> \<longleftrightarrow> rev s = rev p @ rev r" by (rule strip_prefix_Some_iff)
  also have "\<dots> \<longleftrightarrow> s = r @ p" by (metis rev_append rev_rev_ident)
  finally show ?thesis .
qed

lemma ends_with_iff: "ends_with s p \<longleftrightarrow> (\<exists>r. s = r @ p)"
  by (simp add: ends_with_def strip_suffix_Some_iff)

lemma contains_str_iff: "contains_str s p \<longleftrightarrow> (\<exists>a b. s = a @ p @ b)"
proof (induction s)
  case (Cons c s)
  have "(\<exists>a b. c # s = a @ p @ b) \<longleftrightarrow> (\<exists>b. c # s = p @ b) \<or> (\<exists>a b. s = a @ p @ b)"
    by (metis append_Cons append_Nil list.exhaust list.sel(3))
  then show ?case using Cons by (simp add: starts_with_iff)
qed auto

lemma split_char_not_Nil [simp]: "split_char P s \<noteq> []"
  by (induction s) (auto split: list.splits)

lemma split_char_no_sep: "w \<in> set (split_char P s) \<Longrightarrow> c \<in> set w \<Longrightarrow> \<not> P c"
proof (induction s arbitrary: w)
  case (Cons d s)
  obtain v vs where v: "split_char P s = v # vs"
    by (meson list.exhaust split_char_not_Nil)
  with Cons.prems Cons.IH [of w] Cons.IH [of v] show ?case
    by (fastforce split: if_splits)
qed simp

lemma split_char_id [simp]: "\<forall>c\<in>set s. \<not> P c \<Longrightarrow> split_char P s = [s]"
  by (induction s) auto

lemma split_char_append:
  "\<forall>c\<in>set w. \<not> P c \<Longrightarrow> P d \<Longrightarrow> split_char P (w @ d # s) = w # split_char P s"
  by (induction w) auto

lemma join_split_char:
  "join_with [d] (split_char (\<lambda>c. c = d) s) = s"
proof (induction s)
  case (Cons c s)
  obtain w ws where "split_char (\<lambda>c. c = d) s = w # ws"
    by (meson list.exhaust split_char_not_Nil)
  with Cons show ?case by (cases ws) auto
qed simp

lemma split_join_char:
  "ws \<noteq> [] \<Longrightarrow> \<forall>w\<in>set ws. d \<notin> set w \<Longrightarrow> split_char (\<lambda>c. c = d) (join_with [d] ws) = ws"
proof (induction ws rule: induct_list012)
  case (2 w)
  then show ?case by (auto intro: split_char_id)
next
  case (3 w v ws)
  then have "\<forall>c\<in>set w. \<not> c = d" by auto
  with 3 show ?case by (simp add: split_char_append)
qed simp

lemma split_once_char_Some_iff:
  "split_once_char d s = Some (a, b) \<longleftrightarrow> s = a @ d # b \<and> d \<notin> set a"
proof (induction s arbitrary: a)
  case (Cons c s)
  then show ?case by (cases a) auto
qed simp

lemma split_once_char_None_iff: "split_once_char d s = None \<longleftrightarrow> d \<notin> set s"
  by (induction s) auto

section \<open>Decimal numerals\<close>

fun nat_to_string :: "nat \<Rightarrow> string" where
  "nat_to_string n =
     (if n < 10 then [char_of (48 + n)] else nat_to_string (n div 10) @ [char_of (48 + n mod 10)])"

declare nat_to_string.simps [simp del]

definition digit_value :: "char \<Rightarrow> nat" where [rust_str]:
  "digit_value c = code_point c - 48"

definition digits_value :: "string \<Rightarrow> nat" where [rust_str]:
  "digits_value s = foldl (\<lambda>n c. 10 * n + digit_value c) 0 s"

definition parse_unsigned :: "nat \<Rightarrow> string \<Rightarrow> nat option" where [rust_str]:
  \<comment> \<open>\<open>str::parse\<close> for an unsigned type with the given maximum: one leading plus sign is
      accepted, the digits must not be empty, and an overflow is an error\<close>
  "parse_unsigned bound s =
     (let ds = (case s of c # cs \<Rightarrow> if c = CHR ''+'' then cs else s | [] \<Rightarrow> [])
      in if ds \<noteq> [] \<and> list_all is_ascii_digit ds \<and> digits_value ds \<le> bound
         then Some (digits_value ds) else None)"

lemma code_point_digit: "(n::nat) < 10 \<Longrightarrow> code_point (char_of (48 + n)) = 48 + n"
  by simp

lemma is_ascii_digit_char_of [simp]: "(n::nat) < 10 \<Longrightarrow> is_ascii_digit (char_of (48 + n))"
  by (simp add: is_ascii_digit_def)

lemma nat_to_string_digits: "list_all is_ascii_digit (nat_to_string n)"
proof (induction n rule: nat_to_string.induct)
  case (1 n)
  then show ?case by (subst nat_to_string.simps) auto
qed

lemma nat_to_string_not_Nil [simp]: "nat_to_string n \<noteq> []"
  by (subst nat_to_string.simps) simp

lemma digits_value_nat_to_string [simp]: "digits_value (nat_to_string n) = n"
proof (induction n rule: nat_to_string.induct)
  case (1 n)
  then show ?case
    by (subst nat_to_string.simps) (auto simp: digits_value_def digit_value_def)
qed

lemma nat_to_string_head_not_plus: "nat_to_string n = c # cs \<Longrightarrow> c \<noteq> CHR ''+''"
  using nat_to_string_digits [of n] by (auto simp: is_ascii_digit_def)

lemma parse_nat_to_string: "n \<le> bound \<Longrightarrow> parse_unsigned bound (nat_to_string n) = Some n"
proof -
  assume "n \<le> bound"
  obtain c cs where n: "nat_to_string n = c # cs"
    by (meson list.exhaust nat_to_string_not_Nil)
  then have "c \<noteq> CHR ''+''" by (rule nat_to_string_head_not_plus)
  moreover have "list_all is_ascii_digit (c # cs)" "digits_value (c # cs) = n"
    using nat_to_string_digits [of n] digits_value_nat_to_string [of n] n by simp_all
  ultimately show ?thesis using \<open>n \<le> bound\<close> by (simp add: n parse_unsigned_def Let_def)
qed

lemma parse_unsigned_bound: "parse_unsigned bound s = Some n \<Longrightarrow> n \<le> bound"
  by (auto simp: parse_unsigned_def Let_def split: if_splits)

lemma nat_to_string_inj [simp]: "nat_to_string m = nat_to_string n \<longleftrightarrow> m = n"
  by (metis digits_value_nat_to_string)

end
