(* ===== verification/BTree.thy ===== *)
theory BTree
  imports Prelude
begin

text \<open>
  \<open>std::collections::BTreeMap\<close>: an association list in strictly increasing key order, the
  order in which the program iterates over it. \<open>map_of\<close> is the lookup. The locale
  \<open>ordered_map\<close> states what the components rely on, and the operations of this theory are an
  interpretation of it.
\<close>

type_synonym ('k, 'v) btree = "('k \<times> 'v) list"

definition bt_wf :: "('k::linorder, 'v) btree \<Rightarrow> bool" where
  "bt_wf m \<longleftrightarrow> sorted_wrt (<) (map fst m)"

abbreviation bt_get :: "('k, 'v) btree \<Rightarrow> 'k \<Rightarrow> 'v option" where
  "bt_get m k \<equiv> map_of m k"

abbreviation bt_keys :: "('k, 'v) btree \<Rightarrow> 'k list" where
  "bt_keys m \<equiv> map fst m"

definition bt_contains_key :: "('k, 'v) btree \<Rightarrow> 'k \<Rightarrow> bool" where
  "bt_contains_key m k \<longleftrightarrow> bt_get m k \<noteq> None"

fun bt_insert :: "'k::linorder \<Rightarrow> 'v \<Rightarrow> ('k, 'v) btree \<Rightarrow> ('k, 'v) btree" where
  "bt_insert k v [] = [(k, v)]"
| "bt_insert k v ((k', v') # m) =
     (if k = k' then (k, v) # m
      else if k < k' then (k, v) # (k', v') # m
      else (k', v') # bt_insert k v m)"

definition bt_retain :: "('k \<Rightarrow> 'v \<Rightarrow> bool) \<Rightarrow> ('k, 'v) btree \<Rightarrow> ('k, 'v) btree" where
  "bt_retain P m = filter (\<lambda>(k, v). P k v) m"

definition bt_remove :: "'k \<Rightarrow> ('k, 'v) btree \<Rightarrow> ('k, 'v) btree" where
  "bt_remove k m = bt_retain (\<lambda>k' _. k' \<noteq> k) m"

definition bt_extend :: "('k::linorder, 'v) btree \<Rightarrow> ('k \<times> 'v) list \<Rightarrow> ('k, 'v) btree" where
  "bt_extend m kvs = foldl (\<lambda>m (k, v). bt_insert k v m) m kvs"

definition bt_collect :: "('k::linorder \<times> 'v) list \<Rightarrow> ('k, 'v) btree" where
  "bt_collect kvs = bt_extend [] kvs"

section \<open>The contract of an ordered map\<close>

locale ordered_map =
  fixes empty :: 'm
    and get :: "'m \<Rightarrow> 'k::linorder \<Rightarrow> 'v option"
    and ins :: "'k \<Rightarrow> 'v \<Rightarrow> 'm \<Rightarrow> 'm"
    and rem :: "'k \<Rightarrow> 'm \<Rightarrow> 'm"
    and keys :: "'m \<Rightarrow> 'k list"
    and wf :: "'m \<Rightarrow> bool"
  assumes wf_empty: "wf empty"
    and get_empty: "get empty k = None"
    and wf_ins: "wf m \<Longrightarrow> wf (ins k v m)"
    and get_ins: "get (ins k v m) k' = (if k' = k then Some v else get m k')"
    and wf_rem: "wf m \<Longrightarrow> wf (rem k m)"
    and get_rem: "get (rem k m) k' = (if k' = k then None else get m k')"
    and keys_sorted: "wf m \<Longrightarrow> sorted_wrt (<) (keys m)"
    and keys_get: "k \<in> set (keys m) \<longleftrightarrow> get m k \<noteq> None"
    and map_ext: "wf m \<Longrightarrow> wf n \<Longrightarrow> (\<And>k. get m k = get n k) \<Longrightarrow> m = n"
begin

definition ins_all :: "('k \<times> 'v) list \<Rightarrow> 'm \<Rightarrow> 'm" where
  "ins_all kvs m = foldl (\<lambda>m (k, v). ins k v m) m kvs"

lemma wf_ins_all: "wf m \<Longrightarrow> wf (ins_all kvs m)"
  unfolding ins_all_def by (induction kvs arbitrary: m) (auto simp: wf_ins)

lemma get_ins_all:
  "get (ins_all kvs m) k = (case map_of (rev kvs) k of Some v \<Rightarrow> Some v | None \<Rightarrow> get m k)"
  unfolding ins_all_def
  by (induction kvs arbitrary: m) (auto simp: get_ins map_add_def split: option.splits)

lemma ins_commute: "wf m \<Longrightarrow> k \<noteq> k' \<Longrightarrow> ins k v (ins k' v' m) = ins k' v' (ins k v m)"
  by (intro map_ext) (auto simp: wf_ins get_ins)

lemma ins_overwrite: "wf m \<Longrightarrow> ins k v (ins k v' m) = ins k v m"
  by (intro map_ext) (auto simp: wf_ins get_ins)

lemma ins_same: "wf m \<Longrightarrow> get m k = Some v \<Longrightarrow> ins k v m = m"
  by (intro map_ext) (auto simp: wf_ins get_ins)

lemma rem_ins: "wf m \<Longrightarrow> get m k = None \<Longrightarrow> rem k (ins k v m) = m"
  by (intro map_ext) (auto simp: wf_ins wf_rem get_ins get_rem)

lemma rem_absent: "wf m \<Longrightarrow> get m k = None \<Longrightarrow> rem k m = m"
  by (intro map_ext) (auto simp: wf_rem get_rem)

end

section \<open>The operations satisfy the contract\<close>

lemma bt_wf_Nil [simp]: "bt_wf []"
  by (simp add: bt_wf_def)

lemma bt_wf_Cons: "bt_wf ((k, v) # m) \<longleftrightarrow> (\<forall>k'\<in>set (bt_keys m). k < k') \<and> bt_wf m"
  by (auto simp: bt_wf_def)

lemma bt_wf_distinct: "bt_wf m \<Longrightarrow> distinct (bt_keys m)"
  by (simp add: bt_wf_def strict_sorted_iff)

lemma bt_get_Some_iff: "bt_wf m \<Longrightarrow> bt_get m k = Some v \<longleftrightarrow> (k, v) \<in> set m"
  by (simp add: bt_wf_distinct)

lemma set_bt_insert_keys: "set (bt_keys (bt_insert k v m)) = insert k (set (bt_keys m))"
  by (induction k v m rule: bt_insert.induct) auto

lemma bt_wf_insert [simp]: "bt_wf m \<Longrightarrow> bt_wf (bt_insert k v m)"
  by (induction k v m rule: bt_insert.induct)
     (auto simp: bt_wf_Cons set_bt_insert_keys simp del: set_map dest: order.strict_trans)

lemma bt_get_insert [simp]:
  "bt_get (bt_insert k v m) k' = (if k' = k then Some v else bt_get m k')"
  by (induction k v m rule: bt_insert.induct) auto

lemma bt_wf_retain [simp]: "bt_wf m \<Longrightarrow> bt_wf (bt_retain P m)"
  by (auto simp: bt_wf_def bt_retain_def sorted_wrt_map intro: sorted_wrt_filter)

lemma bt_get_retain:
  "bt_wf m \<Longrightarrow>
   bt_get (bt_retain P m) k = (case bt_get m k of Some v \<Rightarrow> if P k v then Some v else None
                                              | None \<Rightarrow> None)"
proof (induction m)
  case (Cons kv m)
  obtain k' v' where kv: "kv = (k', v')" by fastforce
  with Cons.prems have "k' \<notin> set (bt_keys m)" "bt_wf m" by (auto simp: bt_wf_Cons)
  then have "bt_get m k' = None" by (simp add: map_of_eq_None_iff)
  with Cons \<open>bt_wf m\<close> kv show ?case by (auto simp: bt_retain_def split: option.splits)
qed (simp add: bt_retain_def)

lemma bt_get_retain_key [simp]:
  "bt_get (bt_retain (\<lambda>k v. P k) m) k = (if P k then bt_get m k else None)"
  by (induction m) (auto simp: bt_retain_def)

lemma bt_wf_remove [simp]: "bt_wf m \<Longrightarrow> bt_wf (bt_remove k m)"
  by (simp add: bt_remove_def)

lemma bt_get_remove [simp]:
  "bt_get (bt_remove k m) k' = (if k' = k then None else bt_get m k')"
  by (simp add: bt_remove_def)

lemma bt_ext:
  assumes "bt_wf m" "bt_wf n" "\<And>k. bt_get m k = bt_get n k"
  shows "m = n"
proof -
  have "set m = set n"
    using assms by (auto simp: bt_get_Some_iff [symmetric])
  moreover have "sorted_wrt (\<lambda>a b. fst a < fst b) m" "sorted_wrt (\<lambda>a b. fst a < fst b) n"
    using assms by (simp_all add: bt_wf_def sorted_wrt_map)
  ultimately show ?thesis
  proof (induction m arbitrary: n)
    case (Cons a m)
    then obtain b n' where n: "n = b # n'" by (cases n) auto
    have "a = b"
      using Cons.prems n by (metis insert_iff list.simps(15) not_less_iff_gr_or_eq sorted_wrt.simps(2))
    moreover have "a \<notin> set m" "b \<notin> set n'" using Cons.prems n by auto
    ultimately have "set m = set n'" using Cons.prems(1) n by auto
    then have "m = n'" using Cons n by simp
    with \<open>a = b\<close> n show ?case by simp
  qed simp
qed

interpretation bmap: ordered_map "[]" bt_get bt_insert bt_remove bt_keys bt_wf
proof
  fix k :: "'a::linorder" and m :: "('a, 'b) btree"
  show "k \<in> set (bt_keys m) \<longleftrightarrow> bt_get m k \<noteq> None"
    by (simp add: map_of_eq_None_iff)
next
  fix m :: "('a::linorder, 'b) btree"
  assume "bt_wf m"
  then show "sorted_wrt (<) (bt_keys m)" by (simp add: bt_wf_def)
qed (simp_all add: bt_ext)

lemma bt_extend_ins_all: "bt_extend m kvs = bmap.ins_all kvs m"
  by (simp add: bt_extend_def bmap.ins_all_def)

lemma bt_wf_extend [simp]: "bt_wf m \<Longrightarrow> bt_wf (bt_extend m kvs)"
  by (simp add: bt_extend_ins_all bmap.wf_ins_all)

lemma bt_wf_collect [simp]: "bt_wf (bt_collect kvs)"
  by (simp add: bt_collect_def)

lemma bt_get_extend:
  "bt_get (bt_extend m kvs) k =
     (case map_of (rev kvs) k of Some v \<Rightarrow> Some v | None \<Rightarrow> bt_get m k)"
  by (simp add: bt_extend_ins_all bmap.get_ins_all)

lemma map_of_rev_wf: "bt_wf m \<Longrightarrow> map_of (rev m) = map_of m"
  by (rule map_of_eqI) (auto simp: bt_wf_distinct rev_map [symmetric])

lemma bt_get_extend_wf:
  "bt_wf n \<Longrightarrow> bt_get (bt_extend m n) k = (case bt_get n k of Some v \<Rightarrow> Some v | None \<Rightarrow> bt_get m k)"
  by (simp add: bt_get_extend map_of_rev_wf)

lemma bt_contains_key_iff: "bt_contains_key m k \<longleftrightarrow> k \<in> set (bt_keys m)"
  unfolding bt_contains_key_def map_of_eq_None_iff by simp

lemma bt_get_NoneI: "k \<notin> set (bt_keys m) \<Longrightarrow> bt_get m k = None"
  by (simp add: map_of_eq_None_iff)

end
