(* ===== verification/F64.thy ===== *)
theory F64
  imports Prelude Complex_Main "HOL-Library.Log_Nat"
begin

text \<open>
  IEEE 754 binary64, Rust's \<open>f64\<close>. A finite value is a sign and a rational magnitude, so both
  zeros exist; \<open>f64_wf\<close> says that the magnitude is one that binary64 can hold (at most 53
  significant bits and an exponent in range). Every operation computes the exact rational
  result and rounds it once, to nearest with ties to even, which is the standard's rule.
\<close>

datatype f64 = Finite bool rat | Infinite bool | NaN

datatype ordering = Less | Equal | Greater

definition cmp :: "'a::linorder \<Rightarrow> 'a \<Rightarrow> ordering" where
  "cmp a b = (if a < b then Less else if a = b then Equal else Greater)"

fun ordering_reverse :: "ordering \<Rightarrow> ordering" where
  "ordering_reverse Less = Greater"
| "ordering_reverse Equal = Equal"
| "ordering_reverse Greater = Less"

section \<open>Rounding\<close>

definition representable :: "rat \<Rightarrow> bool" where
  "representable q \<longleftrightarrow>
     (\<exists>m::nat. \<exists>e::int. q = of_nat m * 2 powi e \<and> m < 2 ^ 53 \<and> - 1074 \<le> e \<and> e \<le> 971)"

fun f64_wf :: "f64 \<Rightarrow> bool" where
  "f64_wf (Finite s q) = representable q"
| "f64_wf (Infinite s) = True"
| "f64_wf NaN = True"

definition ilog2 :: "rat \<Rightarrow> int" where
  \<comment> \<open>the exponent of a positive rational: \<open>2 powi ilog2 q \<le> q < 2 powi (ilog2 q + 1)\<close>\<close>
  "ilog2 q = (case quotient_of q of (a, b) \<Rightarrow>
     (let e = bitlen a - bitlen b in if 2 powi e \<le> q then e else e - 1))"

definition round_half_even :: "rat \<Rightarrow> int" where
  "round_half_even q =
     (let n = \<lfloor>q\<rfloor>; r = q - of_int n
      in if r < 1 / 2 then n else if r > 1 / 2 then n + 1 else if even n then n else n + 1)"

definition round_mag :: "rat \<Rightarrow> rat option" where
  \<comment> \<open>the magnitude a nonnegative rational rounds to; \<open>None\<close> is an overflow to infinity\<close>
  "round_mag q =
     (if q = 0 then Some 0
      else (let e = max (ilog2 q - 52) (- 1074);
                r = of_int (round_half_even (q / 2 powi e)) * 2 powi e
            in if r \<ge> 2 ^ 1024 then None else Some r))"

definition f64_round :: "bool \<Rightarrow> rat \<Rightarrow> f64" where
  "f64_round s q = (case round_mag q of None \<Rightarrow> Infinite s | Some r \<Rightarrow> Finite s r)"

definition f64_of_rat :: "rat \<Rightarrow> f64" where
  "f64_of_rat q = f64_round (q < 0) \<bar>q\<bar>"

section \<open>Operations\<close>

fun f64_val :: "f64 \<Rightarrow> rat" where
  "f64_val (Finite s q) = (if s then - q else q)"
| "f64_val (Infinite s) = 0"
| "f64_val NaN = 0"

fun is_finite :: "f64 \<Rightarrow> bool" where
  "is_finite (Finite s q) = True"
| "is_finite (Infinite s) = False"
| "is_finite NaN = False"

fun f64_neg :: "f64 \<Rightarrow> f64" where
  "f64_neg (Finite s q) = Finite (\<not> s) q"
| "f64_neg (Infinite s) = Infinite (\<not> s)"
| "f64_neg NaN = NaN"

fun f64_add :: "f64 \<Rightarrow> f64 \<Rightarrow> f64" where
  "f64_add (Finite s p) (Finite t q) =
     (let v = f64_val (Finite s p) + f64_val (Finite t q)
      in if v = 0 then Finite (s \<and> t) 0 else f64_of_rat v)"
| "f64_add (Infinite s) (Finite t q) = Infinite s"
| "f64_add (Finite s p) (Infinite t) = Infinite t"
| "f64_add (Infinite s) (Infinite t) = (if s = t then Infinite s else NaN)"
| "f64_add _ _ = NaN"

definition f64_sub :: "f64 \<Rightarrow> f64 \<Rightarrow> f64" where
  "f64_sub a b = f64_add a (f64_neg b)"

fun f64_mul :: "f64 \<Rightarrow> f64 \<Rightarrow> f64" where
  "f64_mul (Finite s p) (Finite t q) = f64_round (s \<noteq> t) (p * q)"
| "f64_mul (Infinite s) (Finite t q) = (if q = 0 then NaN else Infinite (s \<noteq> t))"
| "f64_mul (Finite s p) (Infinite t) = (if p = 0 then NaN else Infinite (s \<noteq> t))"
| "f64_mul (Infinite s) (Infinite t) = Infinite (s \<noteq> t)"
| "f64_mul _ _ = NaN"

fun f64_div :: "f64 \<Rightarrow> f64 \<Rightarrow> f64" where
  "f64_div (Finite s p) (Finite t q) =
     (if q = 0 then (if p = 0 then NaN else Infinite (s \<noteq> t)) else f64_round (s \<noteq> t) (p / q))"
| "f64_div (Infinite s) (Finite t q) = Infinite (s \<noteq> t)"
| "f64_div (Finite s p) (Infinite t) = Finite (s \<noteq> t) 0"
| "f64_div _ _ = NaN"

fun f64_rem :: "f64 \<Rightarrow> f64 \<Rightarrow> f64" where
  \<comment> \<open>the truncated remainder (C's \<open>fmod\<close>): the sign of the dividend, and never rounded\<close>
  "f64_rem (Finite s p) (Finite t q) =
     (if q = 0 then NaN else Finite s (p - q * of_int \<lfloor>p / q\<rfloor>))"
| "f64_rem (Finite s p) (Infinite t) = Finite s p"
| "f64_rem _ _ = NaN"

fun f64_partial_cmp :: "f64 \<Rightarrow> f64 \<Rightarrow> ordering option" where
  "f64_partial_cmp (Finite s p) (Finite t q) =
     Some (cmp (f64_val (Finite s p)) (f64_val (Finite t q)))"
| "f64_partial_cmp (Infinite s) (Infinite t) =
     Some (if s = t then Equal else if s then Less else Greater)"
| "f64_partial_cmp (Infinite s) (Finite t q) = Some (if s then Less else Greater)"
| "f64_partial_cmp (Finite s p) (Infinite t) = Some (if t then Greater else Less)"
| "f64_partial_cmp _ _ = None"

definition f64_eq :: "f64 \<Rightarrow> f64 \<Rightarrow> bool" where
  "f64_eq a b \<longleftrightarrow> f64_partial_cmp a b = Some Equal"

definition f64_lt :: "f64 \<Rightarrow> f64 \<Rightarrow> bool" where
  "f64_lt a b \<longleftrightarrow> f64_partial_cmp a b = Some Less"

definition f64_ge :: "f64 \<Rightarrow> f64 \<Rightarrow> bool" where
  "f64_ge a b \<longleftrightarrow> f64_partial_cmp a b = Some Greater \<or> f64_partial_cmp a b = Some Equal"

definition f64_max :: "f64 \<Rightarrow> f64 \<Rightarrow> f64" where
  "f64_max a b = (if a = NaN then b else if b = NaN then a else if f64_lt a b then b else a)"

definition f64_min :: "f64 \<Rightarrow> f64 \<Rightarrow> f64" where
  "f64_min a b = (if a = NaN then b else if b = NaN then a else if f64_lt b a then b else a)"

abbreviation (input) f64_zero :: f64 where "f64_zero \<equiv> Finite False 0"

abbreviation (input) f64_one :: f64 where "f64_one \<equiv> Finite False 1"

section \<open>Comparison\<close>

lemma cmp_simps [simp]:
  "cmp a b = Less \<longleftrightarrow> a < b" "cmp a b = Equal \<longleftrightarrow> a = b" "cmp a b = Greater \<longleftrightarrow> b < a"
  by (auto simp: cmp_def)

lemma cmp_refl [simp]: "cmp a a = Equal"
  by simp

lemma cmp_swap: "cmp b a = ordering_reverse (cmp a b)"
  by (auto simp: cmp_def)

lemma f64_partial_cmp_finite:
  "is_finite a \<Longrightarrow> is_finite b \<Longrightarrow> f64_partial_cmp a b = Some (cmp (f64_val a) (f64_val b))"
  by (cases a; cases b) simp_all

section \<open>Rounding facts\<close>

lemma ilog2_bounds:
  assumes "0 < q"
  shows "2 powi ilog2 q \<le> q" and "q < 2 powi (ilog2 q + 1)"
proof -
  obtain a b where ab: "quotient_of q = (a, b)" by fastforce
  have b: "0 < b" and q: "q = of_int a / of_int b"
    using ab quotient_of_denom_pos quotient_of_div by auto
  have a: "0 < a" using assms b q by (simp add: zero_less_divide_iff)
  define m n where "m = bitlen a" and "n = bitlen b"
  have m1: "1 \<le> m" and n1: "1 \<le> n"
    using a b bitlen_eq_zero_iff [of a] bitlen_eq_zero_iff [of b] bitlen_nonneg [of a] bitlen_nonneg [of b]
    unfolding m_def n_def by linarith+
  have bits: "(2::rat) powi (k - 1) \<le> of_int x \<and> of_int x < (2::rat) powi k"
    if x: "0 < x" and k: "k = bitlen x" and "1 \<le> k" for x k :: int
  proof -
    have "2 ^ nat (k - 1) \<le> x" "x < 2 ^ nat k" using bitlen_bounds [OF x] k by auto
    then have "(of_int (2 ^ nat (k - 1)) :: rat) \<le> of_int x" "(of_int x :: rat) < of_int (2 ^ nat k)"
      by (simp_all only: of_int_le_iff of_int_less_iff)
    then show ?thesis using that(3) by (simp add: power_int_nonneg_exp)
  qed
  have A: "2 powi (m - 1) \<le> (of_int a :: rat)" "(of_int a :: rat) < 2 powi m"
    using bits [OF a m_def m1] by auto
  have B: "2 powi (n - 1) \<le> (of_int b :: rat)" "(of_int b :: rat) < 2 powi n"
    using bits [OF b n_def n1] by auto
  have b0: "(0::rat) < of_int b" using b by simp
  have "q < 2 powi m / 2 powi (n - 1)"
    unfolding q using A B b0 a by (intro frac_less) (auto intro: order.strict_implies_order)
  then have up: "q < 2 powi (m - n + 1)"
    by (simp add: power_int_diff [symmetric] algebra_simps)
  have "2 powi (m - 1) / 2 powi n \<le> q"
    unfolding q using A B b0 a by (intro frac_le) (auto intro: order.strict_implies_order)
  then have lo: "2 powi (m - n - 1) \<le> q"
    by (simp add: power_int_diff [symmetric] algebra_simps)
  show "2 powi ilog2 q \<le> q" "q < 2 powi (ilog2 q + 1)"
    using up lo by (auto simp: ilog2_def ab Let_def m_def [symmetric] n_def [symmetric])
qed

lemma round_half_even_of_int [simp]: "round_half_even (of_int n) = n"
  by (simp add: round_half_even_def)

lemma round_half_even_lower: "of_int n \<le> q \<Longrightarrow> n \<le> round_half_even q"
  by (auto simp: round_half_even_def Let_def le_floor_iff intro: order_trans [of n "\<lfloor>q\<rfloor>"])

lemma round_half_even_upper: "q \<le> of_int n \<Longrightarrow> round_half_even q \<le> n"
proof -
  assume q: "q \<le> of_int n"
  show ?thesis
  proof (cases "q = of_int \<lfloor>q\<rfloor>")
    case True
    then have "round_half_even q = \<lfloor>q\<rfloor>" by (metis round_half_even_of_int)
    with q show ?thesis by (simp add: floor_le_iff order_le_less_trans)
  next
    case False
    then have "\<lfloor>q\<rfloor> < n" using q by (metis floor_less_iff floor_of_int le_less floor_mono)
    then show ?thesis by (simp add: round_half_even_def Let_def)
  qed
qed

lemma powi_mono2: "m \<le> n \<Longrightarrow> (2::rat) powi m \<le> 2 powi n"
  by (rule power_int_increasing) auto

lemma powi_less2: "m < n \<Longrightarrow> (2::rat) powi m < 2 powi n"
  by (rule power_int_strict_increasing) auto

lemma powi_nonneg_of_int: "0 \<le> n \<Longrightarrow> (2::rat) powi n = of_int (2 ^ nat n)"
  by (simp add: power_int_nonneg_exp)

lemma ilog2_less: "0 < q \<Longrightarrow> q < 2 powi k \<Longrightarrow> ilog2 q < k"
  using ilog2_bounds(1) [of q] powi_mono2 [of k "ilog2 q"] by force

lemma ilog2_ge: "0 < q \<Longrightarrow> 2 powi k \<le> q \<Longrightarrow> k \<le> ilog2 q"
proof (rule ccontr)
  assume "0 < q" "2 powi k \<le> q" "\<not> k \<le> ilog2 q"
  then have "(2::rat) powi (ilog2 q + 1) \<le> 2 powi k" by (intro powi_mono2) simp
  with \<open>2 powi k \<le> q\<close> ilog2_bounds(2) [OF \<open>0 < q\<close>] show False by simp
qed

lemma representable_zero [simp]: "representable 0"
  unfolding representable_def by (rule exI [of _ 0], rule exI [of _ 0]) simp

lemma representable_less: "representable q \<Longrightarrow> q < 2 ^ 1024"
proof -
  assume "representable q"
  then obtain m :: nat and e :: int
    where q: "q = of_nat m * 2 powi e" and m: "m < 2 ^ 53" and e: "e \<le> 971"
    unfolding representable_def by blast
  have "(of_nat m :: rat) < of_nat (2 ^ 53)" using m by (simp only: of_nat_less_iff)
  then have "of_nat m * 2 powi e < 2 ^ 53 * (2 powi e :: rat)" by simp
  also have "\<dots> \<le> 2 ^ 53 * 2 powi 971" using powi_mono2 [OF e] by simp
  finally show ?thesis unfolding q by simp
qed

lemma representable_nonneg: "representable q \<Longrightarrow> 0 \<le> q"
  by (auto simp: representable_def)

lemma round_mag_exact:
  assumes "representable q"
  shows "round_mag q = Some q"
proof (cases "q = 0")
  case False
  obtain m :: nat and e :: int
    where q: "q = of_nat m * 2 powi e" and m: "m < 2 ^ 53" and e: "- 1074 \<le> e" "e \<le> 971"
    using assms unfolding representable_def by blast
  have pos: "0 < q" using False representable_nonneg [OF assms] by simp
  have mlt: "(of_nat m :: rat) < 2 ^ 53"
    using m of_nat_less_iff [of m "2 ^ 53", where 'a = rat] by simp
  define E where "E = max (ilog2 q - 52) (- 1074)"
  have "E \<le> e"
  proof (rule ccontr)
    assume "\<not> E \<le> e"
    then have "e + 53 \<le> ilog2 q" using e by (simp add: E_def max_def split: if_splits)
    then have "2 powi (e + 53) \<le> q"
      using ilog2_bounds(1) [OF pos] powi_mono2 order_trans by blast
    then have "2 ^ 53 \<le> (of_nat m :: rat)" by (simp add: q power_int_add mult.commute)
    with mlt show False by simp
  qed
  then have "q / 2 powi E = of_nat m * 2 powi (e - E)" by (simp add: q power_int_diff)
  also have "\<dots> = of_int (int m * 2 ^ nat (e - E))"
    using \<open>E \<le> e\<close> by (simp add: power_int_nonneg_exp)
  finally have int: "q / 2 powi E = of_int (int m * 2 ^ nat (e - E))" .
  have "of_int (round_half_even (q / 2 powi E)) * 2 powi E = q"
    unfolding int round_half_even_of_int unfolding int [symmetric] by simp
  then show ?thesis
    using False representable_less [OF assms] by (simp add: round_mag_def Let_def E_def)
qed (simp add: round_mag_def)

lemma round_mag_bounds:
  assumes q: "0 < q" and e: "- 1074 \<le> ilog2 q" "ilog2 q < 1023"
  obtains r where "round_mag q = Some r" "2 powi ilog2 q \<le> r" "r \<le> 2 powi (ilog2 q + 1)"
proof -
  define k E where "k = ilog2 q" and "E = max (k - 52) (- 1074)"
  have E: "E \<le> k" using e by (simp add: E_def k_def)
  have pE: "(0::rat) < 2 powi E" by simp
  define n where "n = round_half_even (q / 2 powi E)"
  have "of_int (2 ^ nat (k - E)) = (2 powi (k - E) :: rat)"
    using E by (simp add: power_int_nonneg_exp)
  also have "\<dots> \<le> q / 2 powi E"
    using ilog2_bounds(1) [OF q] by (simp add: power_int_diff k_def divide_right_mono)
  finally have lo: "2 ^ nat (k - E) \<le> n"
    unfolding n_def by (rule round_half_even_lower)
  have "q / 2 powi E \<le> 2 powi (k + 1 - E)"
    using ilog2_bounds(2) [OF q] by (simp add: power_int_diff k_def divide_right_mono)
  also have "\<dots> = of_int (2 ^ nat (k + 1 - E))"
    using E by (simp add: power_int_nonneg_exp)
  finally have hi: "n \<le> 2 ^ nat (k + 1 - E)"
    unfolding n_def by (rule round_half_even_upper)
  have "(of_int (2 ^ nat (k - E)) :: rat) \<le> of_int n" using lo by (simp only: of_int_le_iff)
  then have "2 powi (k - E) \<le> (of_int n :: rat)" using E by (simp add: power_int_nonneg_exp)
  then have rlo: "2 powi k \<le> of_int n * (2 powi E :: rat)"
    using pE by (simp add: power_int_diff pos_divide_le_eq)
  have "(of_int n :: rat) \<le> of_int (2 ^ nat (k + 1 - E))" using hi by (simp only: of_int_le_iff)
  then have "(of_int n :: rat) \<le> 2 powi (k + 1 - E)" using E by (simp add: power_int_nonneg_exp)
  then have rhi: "of_int n * (2 powi E :: rat) \<le> 2 powi (k + 1)"
    using pE by (simp add: power_int_diff pos_le_divide_eq)
  have "(2::rat) powi (k + 1) < 2 powi 1024"
    using e by (intro powi_less2) (simp add: k_def)
  then have "of_int n * (2 powi E :: rat) < 2 ^ 1024" using rhi by simp
  then have "round_mag q = Some (of_int n * 2 powi E)"
    using q by (auto simp: round_mag_def Let_def n_def E_def k_def)
  with rlo rhi show ?thesis using that by (simp add: k_def)
qed

lemma representable_nat: "n \<le> 2 ^ 53 \<Longrightarrow> representable (of_nat n)"
proof (cases "n = 2 ^ 53")
  case True
  then show ?thesis
    unfolding representable_def by - (rule exI [of _ "2 ^ 52"], rule exI [of _ 1], simp)
next
  assume "n \<le> 2 ^ 53" and "n \<noteq> 2 ^ 53"
  then show ?thesis
    unfolding representable_def by - (rule exI [of _ n], rule exI [of _ 0], simp)
qed

lemma representable_fraction_small:
  assumes "representable q" and "q \<noteq> of_int \<lfloor>q\<rfloor>"
  shows "q < 2 ^ 52"
proof -
  obtain m :: nat and e :: int
    where q: "q = of_nat m * 2 powi e" and m: "m < 2 ^ 53"
    using assms unfolding representable_def by blast
  have "e < 0"
  proof (rule ccontr)
    assume "\<not> e < 0"
    then have "q = of_int (int m * 2 ^ nat e)" by (simp add: q power_int_nonneg_exp)
    then show False using assms(2) by (metis floor_of_int)
  qed
  have "(of_nat m :: rat) < 2 ^ 53"
    using m of_nat_less_iff [of m "2 ^ 53", where 'a = rat] by simp
  moreover have "(2::rat) powi e \<le> 2 powi (- 1)" using \<open>e < 0\<close> by (intro powi_mono2) simp
  ultimately have "of_nat m * 2 powi e < 2 ^ 53 * (2::rat) powi (- 1)"
    by (intro mult_less_le_imp_less) auto
  then show ?thesis by (simp add: q)
qed

lemma round_mag_large:
  assumes "2 ^ 53 \<le> q" and "q < 2 ^ 64"
  obtains r where "round_mag q = Some r" "2 ^ 53 \<le> r" "r \<le> 2 ^ 64"
proof -
  have q: "0 < q" using assms(1) by (rule less_le_trans [rotated]) simp
  have "53 \<le> ilog2 q" by (rule ilog2_ge [OF q]) (use assms in simp)
  moreover have "ilog2 q < 64" by (rule ilog2_less [OF q]) (use assms in simp)
  ultimately have b: "- 1074 \<le> ilog2 q" "ilog2 q < 1023" by linarith+
  obtain r where r: "round_mag q = Some r" "2 powi ilog2 q \<le> r" "r \<le> 2 powi (ilog2 q + 1)"
    using round_mag_bounds [OF q b] .
  have "(2::rat) powi 53 \<le> 2 powi ilog2 q" using \<open>53 \<le> ilog2 q\<close> by (rule powi_mono2)
  moreover have "(2::rat) powi (ilog2 q + 1) \<le> 2 powi 64"
    using \<open>ilog2 q < 64\<close> by (intro powi_mono2) simp
  ultimately show ?thesis using r that by simp
qed

section \<open>Results are doubles\<close>

lemma round_mag_representable:
  assumes "0 \<le> q" "round_mag q = Some r"
  shows "representable r"
proof (cases "q = 0")
  case False
  then have q: "0 < q" using assms(1) by simp
  define E where "E = max (ilog2 q - 52) (- 1074)"
  define n where "n = round_half_even (q / 2 powi E)"
  have r: "r = of_int n * 2 powi E" "r < 2 ^ 1024"
    using assms(2) False by (auto simp: round_mag_def Let_def E_def n_def split: if_splits)
  have "q / 2 powi E \<le> 2 powi 53"
  proof -
    have "q < 2 powi (ilog2 q + 1)" using ilog2_bounds(2) [OF q] .
    also have "\<dots> \<le> (2::rat) powi (53 + E)" by (intro powi_mono2) (simp add: E_def)
    finally show ?thesis by (simp add: power_int_add pos_divide_le_eq)
  qed
  then have "q / 2 powi E \<le> of_int (2 ^ 53)" by simp
  then have n_hi: "n \<le> 2 ^ 53" unfolding n_def by (rule round_half_even_upper)
  have n_lo: "0 \<le> n" unfolding n_def using q by (intro round_half_even_lower) simp
  have E_lo: "- 1074 \<le> E" by (simp add: E_def)
  show ?thesis
  proof (cases "n = 2 ^ 53")
    case True
    then have r': "r = 2 powi (53 + E)" by (simp add: r(1) power_int_add)
    have "E < 971"
    proof (rule ccontr)
      assume "\<not> E < 971"
      then have "(2::rat) powi 1024 \<le> 2 powi (53 + E)" by (intro powi_mono2) simp
      then show False using r(2) r' by simp
    qed
    moreover have "r = of_nat (2 ^ 52) * 2 powi (E + 1)"
    proof -
      have "(2::rat) powi (53 + E) = 2 powi (52 + (E + 1))" by (simp add: add.commute)
      also have "\<dots> = 2 powi 52 * 2 powi (E + 1)" by (rule power_int_add) simp
      finally show ?thesis by (simp add: r')
    qed
    ultimately show ?thesis using E_lo unfolding representable_def
      by - (rule exI [of _ "2 ^ 52"], rule exI [of _ "E + 1"], simp)
  next
    case False
    have "E \<le> 971"
    proof (rule ccontr)
      assume "\<not> E \<le> 971"
      then have E: "E = ilog2 q - 52" "972 \<le> E" by (auto simp: E_def)
      have "2 powi (52 + E) \<le> q" using ilog2_bounds(1) [OF q] E(1) by simp
      then have "(of_int (2 ^ 52) :: rat) \<le> q / 2 powi E" by (simp add: power_int_add pos_le_divide_eq)
      then have "2 ^ 52 \<le> n" unfolding n_def by (rule round_half_even_lower)
      then have "(of_int (2 ^ 52) :: rat) \<le> of_int n" by (simp only: of_int_le_iff)
      then have "(2 powi 52 :: rat) * 2 powi E \<le> r" unfolding r(1) by (intro mult_right_mono) simp_all
      moreover have "(2::rat) powi 1024 \<le> 2 powi (52 + E)" using E(2) by (intro powi_mono2) simp
      ultimately show False using r(2) by (simp add: power_int_add)
    qed
    moreover have "nat n < 2 ^ 53" using False n_hi n_lo by (simp add: nat_less_iff)
    moreover have "r = of_nat (nat n) * 2 powi E" using n_lo by (simp add: r(1))
    ultimately show ?thesis using E_lo unfolding representable_def
      by - (rule exI [of _ "nat n"], rule exI [of _ E], simp)
  qed
qed (use assms in \<open>simp add: round_mag_def\<close>)

lemma f64_round_wf: "0 \<le> q \<Longrightarrow> f64_wf (f64_round s q)"
  by (auto simp: f64_round_def round_mag_representable split: option.splits)

lemma f64_of_rat_wf: "f64_wf (f64_of_rat q)"
  by (simp add: f64_of_rat_def f64_round_wf)

lemma representable_rem_aux:
  fixes a b :: nat
  assumes "0 < b" "min a b < 2 ^ 53" "- 1074 \<le> e" "e \<le> 971"
  shows "representable (of_nat (a mod b) * 2 powi e)"
proof -
  have "a mod b < 2 ^ 53"
    using assms(1,2) mod_less_divisor [OF assms(1), of a] mod_less_eq_dividend [of a b]
    unfolding min_less_iff_disj by linarith
  then show ?thesis unfolding representable_def using assms(3,4) by blast
qed

lemma representable_rem:
  assumes "representable p" "representable q" "q \<noteq> 0"
  shows "representable (p - q * of_int \<lfloor>p / q\<rfloor>)"
proof -
  obtain a :: nat and e :: int where p: "p = of_nat a * 2 powi e" "a < 2 ^ 53" "- 1074 \<le> e" "e \<le> 971"
    using assms(1) unfolding representable_def by blast
  obtain b :: nat and f :: int where q: "q = of_nat b * 2 powi f" "b < 2 ^ 53" "- 1074 \<le> f" "f \<le> 971"
    using assms(2) unfolding representable_def by blast
  define g where "g = min e f"
  define A B where "A = a * 2 ^ nat (e - g)" and "B = b * 2 ^ nat (f - g)"
  have pA: "p = of_nat A * 2 powi g"
    using p(1) by (simp add: A_def g_def power_int_nonneg_exp [symmetric] power_int_add [symmetric])
  have qB: "q = of_nat B * 2 powi g"
    using q(1) by (simp add: B_def g_def power_int_nonneg_exp [symmetric] power_int_add [symmetric])
  have B: "0 < B" using assms(3) qB by (cases B) simp_all
  have "p / q = of_nat A / of_nat B" by (simp add: pA qB)
  then have "\<lfloor>p / q\<rfloor> = int (A div B)" by (simp add: floor_divide_of_nat_eq)
  then have "p - q * of_int \<lfloor>p / q\<rfloor> = (of_nat A - of_nat B * of_nat (A div B)) * 2 powi g"
    by (simp add: pA qB algebra_simps)
  also have "(of_nat A - of_nat B * of_nat (A div B) :: rat) = of_nat (A mod B)"
    by (metis add_diff_cancel_left' mult_div_mod_eq of_nat_add of_nat_mult)
  finally have "p - q * of_int \<lfloor>p / q\<rfloor> = of_nat (A mod B) * 2 powi g" .
  moreover have "min A B < 2 ^ 53"
    using p(2) q(2) by (auto simp: A_def B_def g_def min_def)
  ultimately show ?thesis
    using representable_rem_aux [OF B, of A g] p(3,4) q(3,4) by (simp add: g_def)
qed

lemma f64_arith_wf:
  assumes "f64_wf a" "f64_wf b"
  shows "f64_wf (f64_neg a)" "f64_wf (f64_add a b)" "f64_wf (f64_sub a b)" "f64_wf (f64_mul a b)"
    "f64_wf (f64_div a b)" "f64_wf (f64_rem a b)"
proof -
  have add: "f64_wf (f64_add a b)" if "f64_wf a" "f64_wf b" for a b
    using that by (cases "(a, b)" rule: f64_add.cases) (auto simp: Let_def f64_of_rat_wf)
  have neg: "f64_wf (f64_neg a)" if "f64_wf a" for a using that by (cases a) simp_all
  show "f64_wf (f64_neg a)" "f64_wf (f64_add a b)" "f64_wf (f64_sub a b)"
    using assms add neg by (simp_all add: f64_sub_def)
  show "f64_wf (f64_mul a b)" "f64_wf (f64_div a b)" "f64_wf (f64_rem a b)"
    using assms by (cases a; cases b; simp add: f64_round_wf representable_nonneg representable_rem)+
qed

end
