(* ===== verification/Json.thy ===== *)
theory Json
  imports BTree F64
begin

text \<open>
  \<open>serde_json::Value\<close> and \<open>serde_json::Number\<close> as the program uses them. A number is a
  nonnegative integer that fits \<open>u64\<close>, a negative one that fits \<open>i64\<close>, or a finite double
  (the workspace enables neither \<open>arbitrary_precision\<close> nor \<open>preserve_order\<close>); an object is a
  \<open>BTreeMap\<close>. \<open>json_wf\<close> states these bounds and the key order.
\<close>

datatype number = PosInt nat | NegInt int | Float f64

datatype json =
    Null
  | Bool bool
  | Number number
  | String string
  | Array "json list"
  | Object "(string \<times> json) list"

abbreviation (input) I64_MAX :: int where "I64_MAX \<equiv> 9223372036854775807"

abbreviation (input) I64_MIN :: int where "I64_MIN \<equiv> - 9223372036854775808"

fun number_wf :: "number \<Rightarrow> bool" where
  "number_wf (PosInt n) = (n \<le> U64_MAX)"
| "number_wf (NegInt i) = (I64_MIN \<le> i \<and> i < 0)"
| "number_wf (Float f) = (is_finite f \<and> f64_wf f)"

fun json_wf :: "json \<Rightarrow> bool" where
  "json_wf (Number n) = number_wf n"
| "json_wf (Array vs) = list_all json_wf vs"
| "json_wf (Object m) = (bt_wf m \<and> list_all (\<lambda>(k, v). json_wf v) m)"
| "json_wf _ = True"

section \<open>Numbers\<close>

fun as_i64 :: "number \<Rightarrow> int option" where
  "as_i64 (PosInt n) = (if int n \<le> I64_MAX then Some (int n) else None)"
| "as_i64 (NegInt i) = Some i"
| "as_i64 (Float f) = None"

fun as_u64 :: "number \<Rightarrow> nat option" where
  "as_u64 (PosInt n) = Some n"
| "as_u64 (NegInt i) = None"
| "as_u64 (Float f) = None"

fun as_f64 :: "number \<Rightarrow> f64 option" where
  "as_f64 (PosInt n) = Some (f64_of_rat (of_nat n))"
| "as_f64 (NegInt i) = Some (f64_of_rat (of_int i))"
| "as_f64 (Float f) = Some f"

definition is_i64 :: "number \<Rightarrow> bool" where
  "is_i64 n \<longleftrightarrow> as_i64 n \<noteq> None"

definition is_u64 :: "number \<Rightarrow> bool" where
  "is_u64 n \<longleftrightarrow> as_u64 n \<noteq> None"

definition number_from_f64 :: "f64 \<Rightarrow> number option" where
  "number_from_f64 f = (if is_finite f then Some (Float f) else None)"

definition number_from_i64 :: "int \<Rightarrow> number" where
  "number_from_i64 i = (if 0 \<le> i then PosInt (nat i) else NegInt i)"

definition number_from_u64 :: "nat \<Rightarrow> number" where
  "number_from_u64 n = PosInt n"

section \<open>Values\<close>

fun json_get :: "json \<Rightarrow> string \<Rightarrow> json option" where
  \<comment> \<open>\<open>Value::get\<close> with a string index\<close>
  "json_get (Object m) k = bt_get m k"
| "json_get _ k = None"

fun json_as_str :: "json \<Rightarrow> string option" where
  "json_as_str (String s) = Some s"
| "json_as_str _ = None"

fun json_as_bool :: "json \<Rightarrow> bool option" where
  "json_as_bool (Bool b) = Some b"
| "json_as_bool _ = None"

fun json_as_u64 :: "json \<Rightarrow> nat option" where
  "json_as_u64 (Number n) = as_u64 n"
| "json_as_u64 _ = None"

fun json_as_i64 :: "json \<Rightarrow> int option" where
  "json_as_i64 (Number n) = as_i64 n"
| "json_as_i64 _ = None"

fun json_as_f64 :: "json \<Rightarrow> f64 option" where
  "json_as_f64 (Number n) = as_f64 n"
| "json_as_f64 _ = None"

fun json_as_object :: "json \<Rightarrow> (string \<times> json) list option" where
  "json_as_object (Object m) = Some m"
| "json_as_object _ = None"

section \<open>The value a number denotes\<close>

fun num_val :: "number \<Rightarrow> rat" where
  "num_val (PosInt n) = of_nat n"
| "num_val (NegInt i) = of_int i"
| "num_val (Float f) = f64_val f"

lemma f64_of_small_int:
  assumes "\<bar>i\<bar> \<le> 2 ^ 53"
  shows "f64_of_rat (of_int i) = Finite (i < 0) (of_int \<bar>i\<bar>)"
proof -
  have "nat \<bar>i\<bar> \<le> 2 ^ 53" using assms by (simp add: nat_le_iff)
  then have "round_mag (of_nat (nat \<bar>i\<bar>)) = Some (of_nat (nat \<bar>i\<bar>))"
    by (intro round_mag_exact representable_nat)
  then have "round_mag (of_int \<bar>i\<bar>) = Some (of_int \<bar>i\<bar>)" by simp
  moreover have "\<bar>of_int i :: rat\<bar> = of_int \<bar>i\<bar>" by simp
  ultimately show ?thesis by (simp add: f64_of_rat_def f64_round_def del: of_int_abs)
qed

lemma f64_of_large_int:
  assumes "2 ^ 53 \<le> \<bar>i\<bar>" and "\<bar>i\<bar> < 2 ^ 64"
  obtains r where "f64_of_rat (of_int i) = Finite (i < 0) r" "2 ^ 53 \<le> r" "r \<le> 2 ^ 64"
proof -
  have "(of_int (2 ^ 53) :: rat) \<le> of_int \<bar>i\<bar>" "(of_int \<bar>i\<bar> :: rat) < of_int (2 ^ 64)"
    using assms by (simp_all only: of_int_le_iff of_int_less_iff)
  then have b: "2 ^ 53 \<le> \<bar>of_int i :: rat\<bar>" "\<bar>of_int i :: rat\<bar> < 2 ^ 64" by simp_all
  obtain r where "round_mag \<bar>of_int i\<bar> = Some r" "2 ^ 53 \<le> r" "r \<le> 2 ^ 64"
    by (rule round_mag_large [OF b])
  then show ?thesis using that by (simp add: f64_of_rat_def f64_round_def)
qed

lemma f64_of_int_finite: "\<bar>i\<bar> < 2 ^ 64 \<Longrightarrow> is_finite (f64_of_rat (of_int i))"
proof (cases "\<bar>i\<bar> \<le> 2 ^ 53")
  case False
  assume "\<bar>i\<bar> < 2 ^ 64"
  moreover have "2 ^ 53 \<le> \<bar>i\<bar>" using False by simp
  ultimately obtain r where "f64_of_rat (of_int i) = Finite (i < 0) r"
    using f64_of_large_int by blast
  then show ?thesis by simp
qed (simp add: f64_of_small_int)

text \<open>
  The conversion of a 64-bit integer to a double may move it, but never across a double that
  is a fraction or is \<open>2 ^ 127\<close> or more in magnitude.
\<close>

lemma cmp_f64_of_int:
  assumes i: "\<bar>i\<bar> < 2 ^ 64" and v: "\<bar>v\<bar> < 2 ^ 52 \<or> 2 ^ 127 \<le> \<bar>v\<bar>"
  shows "cmp (f64_val (f64_of_rat (of_int i))) v = cmp (of_int i) v"
proof (cases "\<bar>i\<bar> \<le> 2 ^ 53")
  case True
  then show ?thesis by (simp add: f64_of_small_int)
next
  case False
  then have large: "2 ^ 53 \<le> \<bar>i\<bar>" by simp
  obtain r where r: "f64_of_rat (of_int i) = Finite (i < 0) r" "2 ^ 53 \<le> r" "r \<le> 2 ^ 64"
    using f64_of_large_int [OF large i] .
  have b: "(of_int (2 ^ 53) :: rat) \<le> of_int \<bar>i\<bar>" "(of_int \<bar>i\<bar> :: rat) < of_int (2 ^ 64)"
    using large i by (simp_all only: of_int_le_iff of_int_less_iff)
  show ?thesis
    using r b v by (auto simp: cmp_def abs_if split: if_splits)
qed

end
