(* ===== verification/ExprLexer.thy ===== *)
theory ExprLexer
  imports Json
begin

text \<open>
  The lexer of the expression language (\<open>crates/contract/src/expr/lexer.rs\<close>, \<open>error.rs\<close>).
  The \<open>while\<close> loops over an index become recursions on the characters that are left; each
  scanner returns what it consumed and the rest. The reader \<open>serde_json::from_str::<Number>\<close>
  is the parameter \<open>json_number\<close>. A message of \<open>ExprError::Syntax\<close> is a constructor of
  \<open>syntax_error\<close> with the values the message shows.
\<close>

definition MAX_EXPRESSION_BYTES :: nat where "MAX_EXPRESSION_BYTES = 64 * 1024"

definition MAX_EXPRESSION_TOKENS :: nat where "MAX_EXPRESSION_TOKENS = 4096"

definition MAX_EXPRESSION_DEPTH :: nat where "MAX_EXPRESSION_DEPTH = 128"

definition MAX_EXPRESSION_NODES :: nat where "MAX_EXPRESSION_NODES = 2048"

datatype token =
    TIdentifier string
  | TString string
  | TNumber number
  | TBool bool
  | TNull
  | TOperator string
  | TLeftParen
  | TRightParen
  | TLeftBracket
  | TRightBracket
  | TComma
  | TEnd

datatype syntax_error =
    UnterminatedEscape
  | UnsupportedEscape char
  | UnterminatedString
  | IntegerOutOfRange string
  | InvalidNumber string
  | NumberNotFinite
  | UnexpectedCharacter char nat
  | UnsupportedLiteral string
  | ExpectedRightParen token
  | ExpectedCommaOrRightBracket token
  | ExpectedCommaOrRightParen token
  | ExpectedExpression token
  | UnexpectedTrailingToken token

datatype expr_error =
    InputTooLarge nat nat
  | TooManyTokens nat
  | TooDeep nat
  | TooManyNodes nat
  | Syntax syntax_error
  | Evaluation string

definition ensure_expression_bytes :: "string \<Rightarrow> expr_error + unit" where
  "ensure_expression_bytes source =
     ensure (byte_len source \<le> MAX_EXPRESSION_BYTES)
       (InputTooLarge (byte_len source) MAX_EXPRESSION_BYTES)"

section \<open>Number literals\<close>

definition parse_exponent :: "string \<Rightarrow> int option" where
  \<comment> \<open>the digits after \<open>e\<close> or \<open>E\<close>, with an optional sign\<close>
  "parse_exponent s =
     (let (neg, ds) = (case s of
            c # cs \<Rightarrow> if c = CHR ''-'' then (True, cs) else if c = CHR ''+'' then (False, cs) else (False, s)
          | [] \<Rightarrow> (False, []))
      in if ds \<noteq> [] \<and> list_all is_ascii_digit ds
         then Some (if neg then - int (digits_value ds) else int (digits_value ds)) else None)"

definition parse_mantissa :: "string \<Rightarrow> (nat \<times> nat) option" where
  \<comment> \<open>the digits as one integer and the number of digits after the point\<close>
  "parse_mantissa s =
     (let (ip, fp) = (case split_once_char (CHR ''.'') s of None \<Rightarrow> (s, []) | Some p \<Rightarrow> p)
      in if ip @ fp \<noteq> [] \<and> list_all is_ascii_digit (ip @ fp)
         then Some (digits_value (ip @ fp), length fp) else None)"

fun split_exponent :: "string \<Rightarrow> string \<times> string option" where
  "split_exponent [] = ([], None)"
| "split_exponent (c # cs) =
     (if c = CHR ''e'' \<or> c = CHR ''E'' then ([], Some cs)
      else (case split_exponent cs of (m, x) \<Rightarrow> (c # m, x)))"

definition parse_f64 :: "string \<Rightarrow> f64 option" where
  \<comment> \<open>\<open>str::parse::<f64>\<close> on a literal that starts with a digit or a point: the decimal value,
      rounded once\<close>
  "parse_f64 s =
     (case split_exponent s of (m, x) \<Rightarrow>
        (case (parse_mantissa m, case x of None \<Rightarrow> Some 0 | Some ds \<Rightarrow> parse_exponent ds) of
           (Some (n, k), Some e) \<Rightarrow> Some (f64_round False (of_nat n * 10 powi (e - int k)))
         | _ \<Rightarrow> None))"

definition parse_number_literal ::
    "(string \<Rightarrow> number option) \<Rightarrow> string \<Rightarrow> expr_error + number" where
  "parse_number_literal json_number literal =
     (let as_float =
        and_then (ok_or (parse_f64 literal) (Syntax (InvalidNumber literal))) (\<lambda>value.
        and_then (ensure (is_finite value) (Syntax NumberNotFinite)) (\<lambda>_.
        ok_or (number_from_f64 value) (Syntax NumberNotFinite)))
      in if set literal \<inter> {CHR ''.'', CHR ''e'', CHR ''E''} = {}
         then (case json_number literal of
                 Some n \<Rightarrow> if is_i64 n \<or> is_u64 n then Inr n else Inl (Syntax (IntegerOutOfRange literal))
               | None \<Rightarrow> as_float)
         else as_float)"

section \<open>Scanners\<close>

definition unescape :: "char \<Rightarrow> char option" where
  "unescape e =
     (if e = CHR ''n'' then Some CHR 0x0A
      else if e = CHR ''r'' then Some CHR 0x0D
      else if e = CHR ''t'' then Some CHR 0x09
      else if e = CHR 0x5C then Some CHR 0x5C
      else if e = CHR 0x27 then Some CHR 0x27
      else if e = CHR 0x22 then Some CHR 0x22
      else None)"

fun scan_string :: "char \<Rightarrow> string \<Rightarrow> expr_error + (string \<times> string)" where
  "scan_string quote [] = Inl (Syntax UnterminatedString)"
| "scan_string quote (c # cs) =
     (if c = quote then Inr ([], cs)
      else if c = CHR 0x5C then
        (case cs of
           [] \<Rightarrow> Inl (Syntax UnterminatedEscape)
         | e # ds \<Rightarrow>
             (case unescape e of
                None \<Rightarrow> Inl (Syntax (UnsupportedEscape e))
              | Some u \<Rightarrow> and_then (scan_string quote ds) (\<lambda>(v, rest). Inr (u # v, rest))))
      else and_then (scan_string quote cs) (\<lambda>(v, rest). Inr (c # v, rest)))"

fun scan_number :: "char \<Rightarrow> string \<Rightarrow> string \<times> string" where
  \<comment> \<open>the first argument is the character before the position\<close>
  "scan_number previous [] = ([], [])"
| "scan_number previous (c # cs) =
     (if (is_ascii_digit c \<or> c \<in> set ''.eE+-'')
         \<and> \<not> (c \<in> set ''+-'' \<and> previous \<notin> set ''eE'')
      then (case scan_number c cs of (n, rest) \<Rightarrow> (c # n, rest))
      else ([], c # cs))"

definition is_outcome_field :: "string \<Rightarrow> bool" where
  "is_outcome_field rest =
     list_ex (\<lambda>field. (case strip_prefix field rest of
         None \<Rightarrow> False
       | Some [] \<Rightarrow> True
       | Some (c # _) \<Rightarrow> \<not> is_ascii_alphanumeric c \<and> c \<noteq> CHR ''_''))
       [''output'', ''status'', ''reason'']"

fun scan_identifier :: "string \<Rightarrow> bool \<Rightarrow> bool \<Rightarrow> string \<Rightarrow> string \<times> string" where
  \<comment> \<open>the first argument is the identifier so far\<close>
  "scan_identifier ident step_path outcome_field [] = (ident, [])"
| "scan_identifier ident step_path outcome_field (c # cs) =
     (if is_ascii_alphanumeric c \<or> c \<in> set ''_.-'' then
        (let (sp, oc) =
           (if c = CHR ''.'' then
              (if \<not> step_path \<and> ident @ [c] = ''steps.'' then (True, outcome_field)
               else if step_path \<and> is_outcome_field cs then (step_path, True)
               else (step_path, outcome_field))
            else (step_path, outcome_field))
         in scan_identifier (ident @ [c]) sp oc cs)
      else if step_path \<and> c \<in> set ''@[]'' then
        scan_identifier (ident @ [c]) step_path outcome_field cs
      else if step_path \<and> c = CHR ''/'' \<and> \<not> outcome_field then
        scan_identifier (ident @ [c]) step_path outcome_field cs
      else (ident, c # cs))"

definition identifier_token :: "string \<Rightarrow> token" where
  "identifier_token ident =
     (if ident = ''true'' then TBool True
      else if ident = ''false'' then TBool False
      else if ident = ''null'' then TNull
      else TIdentifier ident)"

definition operator_pair :: "char \<Rightarrow> string \<Rightarrow> string option" where
  "operator_pair c cs =
     (case cs of [] \<Rightarrow> None
      | d # _ \<Rightarrow> if [c, d] \<in> {''||'', ''&&'', ''=='', ''!='', ''>='', ''<=''} then Some [c, d] else None)"

definition single_token :: "char \<Rightarrow> token option" where
  "single_token c =
     (if c \<in> set ''!><+-*/%'' then Some (TOperator [c])
      else if c = CHR ''('' then Some TLeftParen
      else if c = CHR '')'' then Some TRightParen
      else if c = CHR ''['' then Some TLeftBracket
      else if c = CHR '']'' then Some TRightBracket
      else if c = CHR '','' then Some TComma
      else None)"

definition push_token :: "token list \<Rightarrow> token \<Rightarrow> expr_error + token list" where
  "push_token tokens t =
     (if MAX_EXPRESSION_TOKENS \<le> length tokens then Inl (TooManyTokens MAX_EXPRESSION_TOKENS)
      else Inr (tokens @ [t]))"

section \<open>Scanners consume input\<close>

lemma scan_string_length: "scan_string q s = Inr (v, rest) \<Longrightarrow> length rest < length s"
proof (induction q s arbitrary: v rule: scan_string.induct)
  case (2 quote c cs)
  then show ?case
    by (cases cs) (fastforce simp: result_simps split: if_splits option.splits)+
qed simp

lemma scan_number_append: "scan_number p s = (n, rest) \<Longrightarrow> s = n @ rest"
  by (induction p s arbitrary: n rule: scan_number.induct)
     (auto split: if_splits prod.splits)

lemma scan_number_length: "length (snd (scan_number p s)) \<le> length s"
  using scan_number_append [of p s] by (cases "scan_number p s") auto

lemma scan_identifier_append:
  "scan_identifier i sp oc s = (ident, rest) \<Longrightarrow> \<exists>w. ident = i @ w \<and> s = w @ rest"
proof (induction s arbitrary: i sp oc)
  case (Cons c cs)
  have "(\<exists>sp' oc'. scan_identifier i sp oc (c # cs) = scan_identifier (i @ [c]) sp' oc' cs)
        \<or> scan_identifier i sp oc (c # cs) = (i, c # cs)"
    by (simp only: scan_identifier.simps Let_def split: prod.split if_split) blast
  then show ?case
  proof (elim disjE exE)
    fix sp' oc'
    assume "scan_identifier i sp oc (c # cs) = scan_identifier (i @ [c]) sp' oc' cs"
    then have "scan_identifier (i @ [c]) sp' oc' cs = (ident, rest)" using Cons.prems by simp
    then obtain w where "ident = (i @ [c]) @ w" "cs = w @ rest" using Cons.IH by blast
    then show ?thesis by (intro exI [of _ "c # w"]) simp
  qed (use Cons.prems in simp)
qed simp

lemma scan_identifier_length: "length (snd (scan_identifier i sp oc s)) \<le> length s"
  using scan_identifier_append [of i sp oc s] by (cases "scan_identifier i sp oc s") fastforce

section \<open>The tokenizer\<close>

function tokenize_from ::
    "(string \<Rightarrow> number option) \<Rightarrow> token list \<Rightarrow> nat \<Rightarrow> string \<Rightarrow> expr_error + token list" where
  "tokenize_from jn tokens index [] = push_token tokens TEnd"
| "tokenize_from jn tokens index (c # cs) =
     (if is_whitespace c then tokenize_from jn tokens (index + 1) cs
      else if c = CHR 0x27 \<or> c = CHR 0x22 then
        (case scan_string c cs of
           Inl e \<Rightarrow> Inl e
         | Inr (value, rest) \<Rightarrow>
             and_then (push_token tokens (TString value)) (\<lambda>tokens.
               tokenize_from jn tokens (index + (length (c # cs) - length rest)) rest))
      else if is_ascii_digit c
              \<or> c = CHR ''.'' \<and> (case cs of [] \<Rightarrow> False | d # _ \<Rightarrow> is_ascii_digit d) then
        (case scan_number c cs of (n, rest) \<Rightarrow>
           and_then (parse_number_literal jn (c # n)) (\<lambda>number.
           and_then (push_token tokens (TNumber number)) (\<lambda>tokens.
             tokenize_from jn tokens (index + 1 + length n) rest)))
      else if is_ascii_alphabetic c \<or> c = CHR ''_'' then
        (case scan_identifier [c] False False cs of (ident, rest) \<Rightarrow>
           and_then (push_token tokens (identifier_token ident)) (\<lambda>tokens.
             tokenize_from jn tokens (index + length ident) rest))
      else (case operator_pair c cs of
          Some operator \<Rightarrow>
            and_then (push_token tokens (TOperator operator)) (\<lambda>tokens.
              tokenize_from jn tokens (index + 2) (tl cs))
        | None \<Rightarrow>
            (case single_token c of
               None \<Rightarrow> Inl (Syntax (UnexpectedCharacter c index))
             | Some t \<Rightarrow>
                 and_then (push_token tokens t) (\<lambda>tokens. tokenize_from jn tokens (index + 1) cs))))"
  by pat_completeness auto

termination
proof (relation "measure (\<lambda>(jn, tokens, index, s). length s)", goal_cases)
  case (3 jn tokens index c cs a v rest)
  then show ?case using scan_string_length by fastforce
next
  case (4 jn tokens index c cs x n rest)
  then show ?case using scan_number_length [of c cs] by (cases "scan_number c cs") simp
next
  case (5 jn tokens index c cs x ident rest)
  then show ?case using scan_identifier_length [of "[c]" False False cs]
    by (cases "scan_identifier [c] False False cs") simp
qed (auto split: list.splits)

declare tokenize_from.simps(2) [simp del]

definition tokenize :: "(string \<Rightarrow> number option) \<Rightarrow> string \<Rightarrow> expr_error + token list" where
  "tokenize jn source =
     and_then (ensure_expression_bytes source) (\<lambda>_. tokenize_from jn [] 0 source)"

section \<open>What the tokenizer pushes\<close>

definition pushed :: "(string \<Rightarrow> number option) \<Rightarrow> token \<Rightarrow> bool" where
  "pushed jn t \<longleftrightarrow> t \<noteq> TEnd \<and> (\<forall>n. t = TNumber n \<longrightarrow> (\<exists>s. parse_number_literal jn s = Inr n))"

lemma pushed_simps [simp]:
  "pushed jn (TString v)" "pushed jn (TOperator v)" "pushed jn (identifier_token v)"
  "single_token c = Some t \<Longrightarrow> pushed jn t" "parse_number_literal jn s = Inr n \<Longrightarrow> pushed jn (TNumber n)"
  by (auto simp: pushed_def identifier_token_def single_token_def split: if_splits)

lemma tokenize_from_invariant:
  assumes step: "\<And>acc t acc'. P acc \<Longrightarrow> push_token acc t = Inr acc' \<Longrightarrow> pushed jn t \<Longrightarrow> P acc'"
  shows "P acc \<Longrightarrow> tokenize_from jn acc i s = Inr ts \<Longrightarrow> \<exists>acc'. P acc' \<and> push_token acc' TEnd = Inr ts"
proof (induction "length s" arbitrary: acc i s rule: less_induct)
  case less
  show ?case
  proof (cases s)
    case Nil
    then show ?thesis using less.prems by auto
  next
    case (Cons c cs)
    have go: ?thesis
      if r: "and_then (push_token acc t) (\<lambda>acc. tokenize_from jn acc j rest) = Inr ts" and t: "pushed jn t"
        and l: "length rest < length s" for t j rest
    proof -
      from r obtain acc1 where "push_token acc t = Inr acc1" "tokenize_from jn acc1 j rest = Inr ts"
        by (auto simp: and_then_Inr_iff)
      then show ?thesis using less.hyps [OF l] step [OF less.prems(1) _ t] by blast
    qed
    note run = less.prems(2) [unfolded Cons tokenize_from.simps(2)]
    have len: "length (snd (scan_number c cs)) < length s" "length (snd (scan_identifier [c] False False cs)) < length s"
      using scan_number_length [of c cs] scan_identifier_length [of "[c]" False False cs] Cons by simp_all
    consider (space) "is_whitespace c"
      | (quote) "\<not> is_whitespace c" "c = CHR 0x27 \<or> c = CHR 0x22"
      | (other) "\<not> is_whitespace c" "\<not> (c = CHR 0x27 \<or> c = CHR 0x22)" by blast
    then show ?thesis
    proof cases
      case space
      then show ?thesis using run less.hyps [of cs] less.prems(1) Cons by auto
    next
      case quote
      then obtain v rest where v: "scan_string c cs = Inr (v, rest)"
        using run by (auto split: sum.splits)
      show ?thesis
        by (rule go) (use run quote v scan_string_length [OF v] Cons in auto)
    next
      case other
      note run = run [unfolded if_not_P [OF other(1)] if_not_P [OF other(2)]]
      show ?thesis
      proof (cases "is_ascii_digit c \<or> c = CHR ''.'' \<and> (case cs of [] \<Rightarrow> False | d # _ \<Rightarrow> is_ascii_digit d)")
        case True
        obtain n rest where n: "scan_number c cs = (n, rest)" by fastforce
        then obtain k where "parse_number_literal jn (c # n) = Inr k"
            "and_then (push_token acc (TNumber k)) (\<lambda>acc. tokenize_from jn acc (i + 1 + length n) rest) = Inr ts"
          using run [unfolded if_P [OF True]] by (auto simp: and_then_Inr_iff)
        then show ?thesis using len(1) n by (auto intro: go)
      next
        case False
        note run = run [unfolded if_not_P [OF False]]
        show ?thesis
        proof (cases "is_ascii_alphabetic c \<or> c = CHR ''_''")
          case True
          obtain n rest where n: "scan_identifier [c] False False cs = (n, rest)" by fastforce
          show ?thesis
            by (rule go [of "identifier_token n" "i + length n" rest])
               (use run [unfolded if_P [OF True]] len(2) n in auto)
        next
          case False
          note run = run [unfolded if_not_P [OF False]]
          show ?thesis
          proof (cases "operator_pair c cs")
            case None
            then obtain t where t: "single_token c = Some t" using run by (auto split: option.splits)
            show ?thesis by (rule go [of t "i + 1" cs]) (use run None t Cons in auto)
          next
            case (Some w)
            show ?thesis by (rule go [of "TOperator w" "i + 2" "tl cs"]) (use run Some Cons in auto)
          qed
        qed
      qed
    qed
  qed
qed

lemma tokenize_cases:
  assumes "tokenize jn source = Inr ts"
  shows "byte_len source \<le> MAX_EXPRESSION_BYTES" "tokenize_from jn [] 0 source = Inr ts"
  using assms by (auto simp: tokenize_def and_then_Inr_iff ensure_expression_bytes_def ensure_def split: if_splits)

section \<open>Properties\<close>

text \<open>C30: A source the tokenizer accepts has at most 64 KiB and gives at most 4096 tokens, the
  last of which is the end marker and no other is.\<close>

theorem tokenize_limits:
  assumes "tokenize jn source = Inr ts"
  shows "byte_len source \<le> 65536 \<and> length ts \<le> 4096 \<and> last ts = TEnd \<and> TEnd \<notin> set (butlast ts) \<and> ts \<noteq> []"
proof -
  obtain acc where acc: "TEnd \<notin> set acc" "push_token acc TEnd = Inr ts"
    using tokenize_from_invariant [of "\<lambda>acc. TEnd \<notin> set acc" jn "[]" 0 source ts] tokenize_cases(2) [OF assms]
    by (force simp: push_token_def pushed_def split: if_splits)
  then show ?thesis
    using tokenize_cases(1) [OF assms]
    by (auto simp: push_token_def MAX_EXPRESSION_TOKENS_def MAX_EXPRESSION_BYTES_def split: if_splits)
qed

theorem tokenize_limits_witness:
  "tokenize (\<lambda>_. None) ''!true'' = Inr [TOperator ''!'', TBool True, TEnd] \<and> length [TOperator ''!'', TBool True, TEnd] \<le> 4096"
proof -
  have "tokenize (\<lambda>_. None) ''!true'' = Inr [TOperator ''!'', TBool True, TEnd]"
    by (simp add: tokenize_def ensure_expression_bytes_def MAX_EXPRESSION_BYTES_def tokenize_from.simps push_token_def
        MAX_EXPRESSION_TOKENS_def operator_pair_def single_token_def identifier_token_def rust_str)
  then show ?thesis using tokenize_limits [of "\<lambda>_. None" "''!true''"] by simp
qed

end
