(* ===== verification/ExprParser.thy ===== *)
theory ExprParser
  imports ExprLexer
begin

text \<open>
  The expression parser (\<open>crates/contract/src/expr/parser.rs\<close>): a precedence climber over a
  token list with a cursor, a depth limit and a budget of nodes. The mutual recursion of the
  source is not structural (the loops advance the cursor by what a nested call consumed), so
  every function carries fuel and \<open>None\<close> means that it ran out. \<open>parse_fuel\<close> is enough for
  every token list (\<open>parse_expression_returns\<close>).
\<close>

datatype expression_node =
    Literal json
  | Path string
  | ArrayNode "expression_node list"
  | Unary string expression_node
  | Binary string expression_node expression_node
  | Call string "expression_node list"

record parser =
  tokens :: "token list"
  cursor :: nat
  nodes :: nat

type_synonym 'a parse_result = "(expr_error + 'a) option"

fun pand :: "'a parse_result \<Rightarrow> ('a \<Rightarrow> 'b parse_result) \<Rightarrow> 'b parse_result" where
  "pand None f = None"
| "pand (Some (Inl e)) f = Some (Inl e)"
| "pand (Some (Inr x)) f = f x"

definition parser_new :: "token list \<Rightarrow> parser" where
  "parser_new ts = \<lparr>tokens = ts, cursor = 0, nodes = 0\<rparr>"

definition peek :: "parser \<Rightarrow> token" where
  "peek p = (if cursor p < length (tokens p) then tokens p ! cursor p else TEnd)"

definition advance :: "parser \<Rightarrow> parser" where
  "advance p = p\<lparr>cursor := cursor p + 1\<rparr>"

definition next_token :: "parser \<Rightarrow> token \<times> parser" where
  "next_token p = (peek p, advance p)"

definition ensure_depth :: "nat \<Rightarrow> expr_error + unit" where
  "ensure_depth depth = ensure (depth \<le> MAX_EXPRESSION_DEPTH) (TooDeep MAX_EXPRESSION_DEPTH)"

definition next_depth :: "nat \<Rightarrow> expr_error + nat" where
  "next_depth depth = ok_or (checked_add_u64 depth 1) (TooDeep MAX_EXPRESSION_DEPTH)"

definition reserve_node :: "parser \<Rightarrow> expr_error + parser" where
  "reserve_node p =
     (if MAX_EXPRESSION_NODES \<le> nodes p then Inl (TooManyNodes MAX_EXPRESSION_NODES)
      else Inr (p\<lparr>nodes := nodes p + 1\<rparr>))"

definition infix_binding_power :: "string \<Rightarrow> (nat \<times> nat) option" where
  "infix_binding_power operator =
     (if operator = ''||'' then Some (1, 2)
      else if operator = ''&&'' then Some (3, 4)
      else if operator \<in> {''=='', ''!=''} then Some (5, 6)
      else if operator \<in> {''>'', ''<'', ''>='', ''<=''} then Some (7, 8)
      else if operator \<in> {''+'', ''-''} then Some (9, 10)
      else if operator \<in> {''*'', ''/'', ''%''} then Some (11, 12)
      else None)"

definition node_result :: "parser \<Rightarrow> expression_node \<Rightarrow> (expression_node \<times> parser) parse_result" where
  \<comment> \<open>\<open>self.reserve_node()?; Ok(node)\<close>\<close>
  "node_result p e = Some (and_then (reserve_node p) (\<lambda>p. Inr (e, p)))"

definition is_path_identifier :: "string \<Rightarrow> bool" where
  "is_path_identifier identifier \<longleftrightarrow>
     starts_with identifier ''inputs.'' \<or> starts_with identifier ''steps.''
     \<or> identifier = ''item'' \<or> starts_with identifier ''item.''"

function (sequential) parse_expression_at :: "nat \<Rightarrow> nat \<Rightarrow> nat \<Rightarrow> parser \<Rightarrow> (expression_node \<times> parser) parse_result"
and binary_loop :: "nat \<Rightarrow> nat \<Rightarrow> nat \<Rightarrow> expression_node \<Rightarrow> parser \<Rightarrow> (expression_node \<times> parser) parse_result"
and parse_prefix :: "nat \<Rightarrow> nat \<Rightarrow> parser \<Rightarrow> (expression_node \<times> parser) parse_result"
and array_loop :: "nat \<Rightarrow> nat \<Rightarrow> expression_node list \<Rightarrow> parser \<Rightarrow> (expression_node \<times> parser) parse_result"
and parse_call :: "nat \<Rightarrow> string \<Rightarrow> nat \<Rightarrow> parser \<Rightarrow> (expression_node \<times> parser) parse_result"
and call_loop :: "nat \<Rightarrow> string \<Rightarrow> nat \<Rightarrow> expression_node list \<Rightarrow> parser \<Rightarrow> (expression_node \<times> parser) parse_result"
where
  "parse_expression_at 0 min_binding_power depth p = None"
| "parse_expression_at (Suc fuel) min_binding_power depth p =
     pand (Some (ensure_depth depth)) (\<lambda>_.
     pand (parse_prefix fuel depth p) (\<lambda>(left, p).
       binary_loop fuel min_binding_power depth left p))"
| "binary_loop 0 min_binding_power depth left p = None"
| "binary_loop (Suc fuel) min_binding_power depth left p =
     (case peek p of
        TOperator operator \<Rightarrow>
          (case infix_binding_power operator of
             None \<Rightarrow> Some (Inr (left, p))
           | Some (left_power, right_power) \<Rightarrow>
               if left_power < min_binding_power then Some (Inr (left, p))
               else
                 pand (Some (next_depth depth)) (\<lambda>deeper.
                 pand (parse_expression_at fuel right_power deeper (advance p)) (\<lambda>(right, p).
                 pand (Some (reserve_node p)) (\<lambda>p.
                   binary_loop fuel min_binding_power depth (Binary operator left right) p))))
      | _ \<Rightarrow> Some (Inr (left, p)))"
| "parse_prefix 0 depth p = None"
| "parse_prefix (Suc fuel) depth p =
     pand (Some (ensure_depth depth)) (\<lambda>_.
     (case next_token p of (token, p) \<Rightarrow>
        (case token of
           TBool b \<Rightarrow> node_result p (Literal (Bool b))
         | TNull \<Rightarrow> node_result p (Literal Null)
         | TString s \<Rightarrow> node_result p (Literal (String s))
         | TNumber n \<Rightarrow> node_result p (Literal (Number n))
         | TIdentifier identifier \<Rightarrow>
             if peek p = TLeftParen then
               pand (Some (next_depth depth)) (\<lambda>deeper. parse_call fuel identifier deeper (advance p))
             else if is_path_identifier identifier then
               (if MAX_EXPRESSION_DEPTH < length (split_char (\<lambda>c. c = CHR ''.'') identifier)
                then Some (Inl (TooDeep MAX_EXPRESSION_DEPTH))
                else node_result p (Path identifier))
             else Some (Inl (Syntax (UnsupportedLiteral identifier)))
         | TOperator operator \<Rightarrow>
             if operator = ''!'' \<or> operator = ''-'' then
               pand (Some (next_depth depth)) (\<lambda>deeper.
               pand (parse_expression_at fuel 13 deeper p) (\<lambda>(operand, p).
                 node_result p (Unary operator operand)))
             else Some (Inl (Syntax (ExpectedExpression token)))
         | TLeftParen \<Rightarrow>
             pand (Some (next_depth depth)) (\<lambda>deeper.
             pand (parse_expression_at fuel 0 deeper p) (\<lambda>(expression, p).
               (case next_token p of (closing, p) \<Rightarrow>
                  if closing = TRightParen then Some (Inr (expression, p))
                  else Some (Inl (Syntax (ExpectedRightParen closing))))))
         | TLeftBracket \<Rightarrow>
             if peek p = TRightBracket then node_result (advance p) (ArrayNode [])
             else array_loop fuel depth [] p
         | _ \<Rightarrow> Some (Inl (Syntax (ExpectedExpression token))))))"
| "array_loop 0 depth items p = None"
| "array_loop (Suc fuel) depth items p =
     pand (Some (next_depth depth)) (\<lambda>deeper.
     pand (parse_expression_at fuel 0 deeper p) (\<lambda>(item, p).
       (case next_token p of (token, p) \<Rightarrow>
          if token = TComma then array_loop fuel depth (items @ [item]) p
          else if token = TRightBracket then node_result p (ArrayNode (items @ [item]))
          else Some (Inl (Syntax (ExpectedCommaOrRightBracket token))))))"
| "parse_call 0 name depth p = None"
| "parse_call (Suc fuel) name depth p =
     pand (Some (ensure_depth depth)) (\<lambda>_.
       if peek p = TRightParen then node_result (advance p) (Call name [])
       else call_loop fuel name depth [] p)"
| "call_loop 0 name depth arguments p = None"
| "call_loop (Suc fuel) name depth arguments p =
     pand (Some (next_depth depth)) (\<lambda>deeper.
     pand (parse_expression_at fuel 0 deeper p) (\<lambda>(argument, p).
       (case next_token p of (token, p) \<Rightarrow>
          if token = TComma then call_loop fuel name depth (arguments @ [argument]) p
          else if token = TRightParen then node_result p (Call name (arguments @ [argument]))
          else Some (Inl (Syntax (ExpectedCommaOrRightParen token))))))"
  by pat_completeness auto
termination
  by (relation "measure (\<lambda>x. case x of
        Inl (Inl (fuel, _)) \<Rightarrow> fuel | Inl (Inr (Inl (fuel, _))) \<Rightarrow> fuel | Inl (Inr (Inr (fuel, _))) \<Rightarrow> fuel
      | Inr (Inl (fuel, _)) \<Rightarrow> fuel | Inr (Inr (Inl (fuel, _))) \<Rightarrow> fuel | Inr (Inr (Inr (fuel, _))) \<Rightarrow> fuel)") auto

definition parse_fuel :: "token list \<Rightarrow> nat" where
  "parse_fuel ts = 4 * length ts + 4"

definition parse_expression :: "nat \<Rightarrow> parser \<Rightarrow> (expression_node \<times> parser) parse_result" where
  "parse_expression min_binding_power p =
     parse_expression_at (parse_fuel (tokens p)) min_binding_power 0 p"

definition expect_end :: "parser \<Rightarrow> expr_error + unit" where
  "expect_end p = ensure (peek p = TEnd) (Syntax (UnexpectedTrailingToken (peek p)))"

definition parse_tokens :: "token list \<Rightarrow> expression_node parse_result" where
  \<comment> \<open>\<open>Parser::new\<close>, \<open>parse_expression(0)\<close>, \<open>expect_end\<close>, as every caller runs them\<close>
  "parse_tokens ts =
     pand (parse_expression 0 (parser_new ts)) (\<lambda>(e, p).
     pand (Some (expect_end p)) (\<lambda>_. Some (Inr e)))"

definition parse_source :: "(string \<Rightarrow> number option) \<Rightarrow> string \<Rightarrow> expression_node parse_result" where
  "parse_source jn src = pand (Some (tokenize jn src)) parse_tokens"

section \<open>Progress and the node budget\<close>

fun node_count :: "expression_node \<Rightarrow> nat" where
  "node_count (Literal v) = 1"
| "node_count (Path s) = 1"
| "node_count (ArrayNode es) = Suc (sum_list (map node_count es))"
| "node_count (Unary operator e) = Suc (node_count e)"
| "node_count (Binary operator l r) = Suc (node_count l + node_count r)"
| "node_count (Call name es) = Suc (sum_list (map node_count es))"

lemma pand_Inr_iff: "pand r f = Some (Inr y) \<longleftrightarrow> (\<exists>x. r = Some (Inr x) \<and> f x = Some (Inr y))"
  by (cases "(r, f)" rule: pand.cases) auto

lemma pand_None_iff: "pand r f = None \<longleftrightarrow> r = None \<or> (\<exists>x. r = Some (Inr x) \<and> f x = None)"
  by (cases "(r, f)" rule: pand.cases) auto

lemma pand_Some_iff:
  "pand r f = Some z \<longleftrightarrow>
     (\<exists>e. r = Some (Inl e) \<and> z = Inl e) \<or> (\<exists>x. r = Some (Inr x) \<and> f x = Some z)"
  by (cases "(r, f)" rule: pand.cases) auto

lemma node_result_Inr_iff:
  "node_result p e = Some (Inr (e', p')) \<longleftrightarrow>
     e' = e \<and> p' = p\<lparr>nodes := nodes p + 1\<rparr> \<and> nodes p < MAX_EXPRESSION_NODES"
  by (auto simp: node_result_def reserve_node_def)

lemma node_result_not_None [simp]: "node_result p e \<noteq> None"
  by (simp add: node_result_def)

lemma reserve_node_Inr_iff:
  "reserve_node p = Inr p' \<longleftrightarrow> p' = p\<lparr>nodes := nodes p + 1\<rparr> \<and> nodes p < MAX_EXPRESSION_NODES"
  by (auto simp: reserve_node_def)

lemma peek_in_range: "peek p \<noteq> TEnd \<Longrightarrow> cursor p < length (tokens p)"
  by (auto simp: peek_def split: if_splits)

lemma advance_simps [simp]:
  "tokens (advance p) = tokens p" "cursor (advance p) = Suc (cursor p)" "nodes (advance p) = nodes p"
  by (simp_all add: advance_def)

definition consumed :: "parser \<Rightarrow> parser \<Rightarrow> bool" where
  "consumed p p' \<longleftrightarrow> tokens p' = tokens p \<and> cursor p < cursor p' \<and> cursor p < length (tokens p)
     \<and> nodes p' \<le> MAX_EXPRESSION_NODES"

lemmas parser_simps =
  pand_Inr_iff node_result_Inr_iff reserve_node_Inr_iff next_token_def consumed_def

text \<open>What a successful call of each of the six functions does to the parser.\<close>

lemma parser_progress:
  shows "parse_expression_at fuel m d p = Some (Inr (e, p')) \<Longrightarrow>
      consumed p p' \<and> nodes p' = nodes p + node_count e"
    and "binary_loop fuel m d l p = Some (Inr (e, p')) \<Longrightarrow> nodes p \<le> MAX_EXPRESSION_NODES \<Longrightarrow>
      tokens p' = tokens p \<and> cursor p \<le> cursor p' \<and> nodes p' \<le> MAX_EXPRESSION_NODES
      \<and> nodes p' + node_count l = nodes p + node_count e"
    and "parse_prefix fuel d p = Some (Inr (e, p')) \<Longrightarrow>
      consumed p p' \<and> nodes p' = nodes p + node_count e"
    and "array_loop fuel d es p = Some (Inr (e, p')) \<Longrightarrow>
      consumed p p' \<and> nodes p' + sum_list (map node_count es) = nodes p + node_count e"
    and "parse_call fuel n d p = Some (Inr (e, p')) \<Longrightarrow>
      consumed p p' \<and> nodes p' = nodes p + node_count e"
    and "call_loop fuel n d es p = Some (Inr (e, p')) \<Longrightarrow>
      consumed p p' \<and> nodes p' + sum_list (map node_count es) = nodes p + node_count e"
proof (induction fuel arbitrary: m d p e p' l es n)
  case (Suc fuel)
  note IH = Suc.IH
  {
    case 1
    then obtain l q where
      l: "parse_prefix fuel d p = Some (Inr (l, q))" and e: "binary_loop fuel m d l q = Some (Inr (e, p'))"
      by (auto simp: pand_Inr_iff)
    from IH(3) [OF l] IH(2) [OF e] show ?case by (auto simp: consumed_def)
  next
    case 2
    show ?case
    proof (cases "e = l \<and> p' = p")
      case False
      with 2 obtain operator rp deeper r q q' where
        r: "parse_expression_at fuel rp deeper (advance p) = Some (Inr (r, q))"
        and q: "reserve_node q = Inr q'"
        and e: "binary_loop fuel m d (Binary operator l r) q' = Some (Inr (e, p'))"
        by (auto simp: pand_Inr_iff split: token.splits option.splits if_splits)
      from IH(1) [OF r] q IH(2) [OF e] show ?thesis
        by (auto simp: reserve_node_Inr_iff consumed_def)
    qed (use 2 in simp)
  next
    case 3
    have "peek p \<noteq> TEnd" using 3 by (auto simp: parser_simps)
    then have "cursor p < length (tokens p)" by (rule peek_in_range)
    with 3 show ?case
      by (cases "peek p")
         (auto simp: parser_simps split: if_splits dest!: IH(1) IH(4) IH(5))
  next
    case 4
    then show ?case by (auto simp: parser_simps split: if_splits dest!: IH(1) IH(4))
  next
    case 5
    then show ?case
      using peek_in_range [of p] by (auto simp: parser_simps split: if_splits dest!: IH(6))
  next
    case 6
    then show ?case by (auto simp: parser_simps split: if_splits dest!: IH(1) IH(6))
  }
qed simp_all

section \<open>Enough fuel\<close>

abbreviation remaining :: "parser \<Rightarrow> nat" where
  "remaining p \<equiv> length (tokens p) - cursor p"

lemma consumed_remaining: "consumed p p' \<Longrightarrow> remaining p' < remaining p"
  by (auto simp: consumed_def)

lemma remaining_advance: "peek p \<noteq> TEnd \<Longrightarrow> Suc (remaining (advance p)) = remaining p"
  by (auto dest: peek_in_range)

lemma parser_returns:
  shows "4 * remaining p + 4 \<le> fuel \<Longrightarrow> parse_expression_at fuel m d p \<noteq> None"
    and "4 * remaining p + 1 \<le> fuel \<Longrightarrow> binary_loop fuel m d l p \<noteq> None"
    and "4 * remaining p + 3 \<le> fuel \<Longrightarrow> parse_prefix fuel d p \<noteq> None"
    and "4 * remaining p + 5 \<le> fuel \<Longrightarrow> array_loop fuel d es p \<noteq> None"
    and "4 * remaining p + 6 \<le> fuel \<Longrightarrow> parse_call fuel n d p \<noteq> None"
    and "4 * remaining p + 5 \<le> fuel \<Longrightarrow> call_loop fuel n d es p \<noteq> None"
proof (induction fuel arbitrary: m d p l es n)
  case (Suc fuel)
  note IH = Suc.IH
  have item: "4 * remaining (advance q) + 5 \<le> fuel"
    if "parse_expression_at fuel 0 k p = Some (Inr (e, q))" "peek q = TComma" "4 * remaining p + 4 \<le> fuel"
    for p q e k
  proof -
    have "remaining q < remaining p"
      using parser_progress(1) [OF that(1)] consumed_remaining by blast
    moreover have "Suc (remaining (advance q)) = remaining q"
      using that(2) by (intro remaining_advance) simp
    ultimately show ?thesis using that(3) by linarith
  qed
  {
    case 1
    have "parse_prefix fuel d p \<noteq> None" by (rule IH(3)) (use 1 in simp)
    moreover have "binary_loop fuel m d e q \<noteq> None" if "parse_prefix fuel d p = Some (Inr (e, q))" for e q
    proof (rule IH(2))
      have "remaining q < remaining p" using parser_progress(3) [OF that] consumed_remaining by blast
      then show "4 * remaining q + 1 \<le> fuel" using 1 by linarith
    qed
    ultimately show ?case by (auto simp del: not_None_eq simp: pand_None_iff)
  next
    case 2
    have "parse_expression_at fuel rp k (advance p) \<noteq> None" if "peek p \<noteq> TEnd" for rp k
      using remaining_advance [OF that] 2 by (intro IH(1)) linarith
    moreover have "binary_loop fuel m d l' q' \<noteq> None"
      if "parse_expression_at fuel rp k (advance p) = Some (Inr (e, q))" "reserve_node q = Inr q'"
      for rp k e q q' l'
    proof (rule IH(2))
      have "remaining q' < remaining (advance p)"
        using parser_progress(1) [OF that(1)] that(2) consumed_remaining [of "advance p" q]
        by (auto simp: reserve_node_Inr_iff)
      then show "4 * remaining q' + 1 \<le> fuel" using 2 by auto
    qed
    ultimately show ?case
      by (auto simp del: not_None_eq simp: pand_None_iff split: token.splits option.splits)
  next
    case 3
    show ?case
    proof (cases "peek p = TEnd")
      case False
      have r: "Suc (remaining (advance p)) = remaining p" using False by (rule remaining_advance)
      have e: "parse_expression_at fuel m k (advance p) \<noteq> None" for m k
        using r 3 by (intro IH(1)) linarith
      have a: "array_loop fuel k [] (advance p) \<noteq> None" for k using r 3 by (intro IH(4)) linarith
      have c: "parse_call fuel n k (advance (advance p)) \<noteq> None" if "peek (advance p) = TLeftParen" for n k
        using r remaining_advance [of "advance p"] that 3 by (intro IH(5)) simp
      show ?thesis
        using e a c by (cases "peek p") (auto simp del: not_None_eq simp: pand_None_iff next_token_def)
    qed (simp add: pand_None_iff next_token_def)
  next
    case 4
    have "parse_expression_at fuel 0 k p \<noteq> None" for k by (rule IH(1)) (use 4 in simp)
    moreover have "array_loop fuel j es' (advance q) \<noteq> None"
      if "parse_expression_at fuel 0 k p = Some (Inr (e, q))" "peek q = TComma" for j k e q es'
      using item [OF that] 4 by (intro IH(4)) simp
    ultimately show ?case by (auto simp del: not_None_eq simp: pand_None_iff next_token_def)
  next
    case 5
    have "call_loop fuel f k [] p \<noteq> None" for f k by (rule IH(6)) (use 5 in simp)
    then show ?case by (auto simp del: not_None_eq simp: pand_None_iff)
  next
    case 6
    have "parse_expression_at fuel 0 k p \<noteq> None" for k by (rule IH(1)) (use 6 in simp)
    moreover have "call_loop fuel f j es' (advance q) \<noteq> None"
      if "parse_expression_at fuel 0 k p = Some (Inr (e, q))" "peek q = TComma" for f j k e q es'
      using item [OF that] 6 by (intro IH(6)) simp
    ultimately show ?case by (auto simp del: not_None_eq simp: pand_None_iff next_token_def)
  }
qed simp_all

lemma parse_expression_returns: "parse_expression m p \<noteq> None"
  unfolding parse_expression_def by (rule parser_returns(1)) (simp add: parse_fuel_def)

lemma parse_tokens_returns: "parse_tokens ts \<noteq> None"
  using parse_expression_returns by (auto simp: parse_tokens_def pand_None_iff)

lemma parse_source_returns: "parse_source jn src \<noteq> None"
  using parse_tokens_returns by (auto simp: parse_source_def pand_None_iff)

end
