(* ===== verification/ExprPrint.thy ===== *)
theory ExprPrint
  imports ExprParser
begin

text \<open>
  A printer for the expression language and the round trip with the parser. The printer
  brackets a binary node only where its left binding power is below that of the context, so
  the round trip says that \<open>parser.rs\<close> implements the precedence table and left
  associativity of \<open>infix_binding_power\<close>: no operator is bound tighter or looser than the
  table says.
\<close>

section \<open>Expressions the parser can build\<close>

fun wf_ast :: "expression_node \<Rightarrow> bool" where
  "wf_ast (Literal v) = (case v of Array _ \<Rightarrow> False | Object _ \<Rightarrow> False | _ \<Rightarrow> True)"
| "wf_ast (Path s) =
     (is_path_identifier s \<and> length (split_char (\<lambda>c. c = CHR ''.'') s) \<le> MAX_EXPRESSION_DEPTH)"
| "wf_ast (ArrayNode es) = list_all wf_ast es"
| "wf_ast (Unary operator e) = (operator \<in> {''!'', ''-''} \<and> wf_ast e)"
| "wf_ast (Binary operator l r) = (infix_binding_power operator \<noteq> None \<and> wf_ast l \<and> wf_ast r)"
| "wf_ast (Call name es) = list_all wf_ast es"

lemma parser_wf_ast:
  shows "parse_expression_at fuel m d p = Some (Inr (e, p')) \<Longrightarrow> wf_ast e"
    and "binary_loop fuel m d l p = Some (Inr (e, p')) \<Longrightarrow> wf_ast l \<Longrightarrow> wf_ast e"
    and "parse_prefix fuel d p = Some (Inr (e, p')) \<Longrightarrow> wf_ast e"
    and "array_loop fuel d es p = Some (Inr (e, p')) \<Longrightarrow> list_all wf_ast es \<Longrightarrow> wf_ast e"
    and "parse_call fuel n d p = Some (Inr (e, p')) \<Longrightarrow> wf_ast e"
    and "call_loop fuel n d es p = Some (Inr (e, p')) \<Longrightarrow> list_all wf_ast es \<Longrightarrow> wf_ast e"
proof (induction fuel arbitrary: m d p e p' l es n)
  case (Suc fuel)
  note IH = Suc.IH
  {
    case 1
    then show ?case by (auto simp: pand_Inr_iff dest: IH(3) IH(2))
  next
    case 2
    then show ?case
      by (auto simp: pand_Inr_iff split: token.splits option.splits if_splits dest!: IH(1) IH(2))
  next
    case 3
    then show ?case
      by (cases "peek p")
         (auto simp: parser_simps split: if_splits dest: IH(1) IH(4) IH(5))
  next
    case 4
    then show ?case by (auto simp: parser_simps split: if_splits dest!: IH(1) IH(4))
  next
    case 5
    then show ?case by (auto simp: parser_simps split: if_splits dest: IH(6))
  next
    case 6
    then show ?case by (auto simp: parser_simps split: if_splits dest!: IH(1) IH(6))
  }
qed simp_all

section \<open>The printer\<close>

fun literal_token :: "json \<Rightarrow> token" where
  "literal_token Null = TNull"
| "literal_token (Bool b) = TBool b"
| "literal_token (Number n) = TNumber n"
| "literal_token (String s) = TString s"
| "literal_token _ = TEnd"

fun comma_sep :: "token list list \<Rightarrow> token list" where
  "comma_sep [] = []"
| "comma_sep [ts] = ts"
| "comma_sep (ts # tss) = ts @ TComma # comma_sep tss"

lemma comma_sep_Cons:
  "comma_sep (ts # tss) = ts @ (if tss = [] then [] else TComma # comma_sep tss)"
  by (cases tss) simp_all

definition left_power :: "string \<Rightarrow> nat" where
  "left_power operator = (case infix_binding_power operator of Some (l, r) \<Rightarrow> l | None \<Rightarrow> 0)"

fun print_at :: "nat \<Rightarrow> expression_node \<Rightarrow> token list" where
  "print_at m (Literal v) = [literal_token v]"
| "print_at m (Path s) = [TIdentifier s]"
| "print_at m (ArrayNode es) = TLeftBracket # comma_sep (map (print_at 0) es) @ [TRightBracket]"
| "print_at m (Unary operator e) = TOperator operator # print_at 13 e"
| "print_at m (Binary operator l r) =
     (let body = print_at (left_power operator) l @ TOperator operator # print_at (left_power operator + 1) r
      in if left_power operator < m then TLeftParen # body @ [TRightParen] else body)"
| "print_at m (Call name es) =
     TIdentifier name # TLeftParen # comma_sep (map (print_at 0) es) @ [TRightParen]"

fun print_depth :: "nat \<Rightarrow> expression_node \<Rightarrow> nat" where
  \<comment> \<open>how far below its own level the parser goes on the printed expression\<close>
  "print_depth m (Literal v) = 0"
| "print_depth m (Path s) = 0"
| "print_depth m (ArrayNode es) = foldr max (map (\<lambda>e. 1 + print_depth 0 e) es) 0"
| "print_depth m (Unary operator e) = 1 + print_depth 13 e"
| "print_depth m (Binary operator l r) =
     (let body = max (print_depth (left_power operator) l) (1 + print_depth (left_power operator + 1) r)
      in if left_power operator < m then 1 + body else body)"
| "print_depth m (Call name es) = 1 + foldr max (map (\<lambda>e. 1 + print_depth 0 e) es) 0"

definition print_expression :: "expression_node \<Rightarrow> token list" where
  "print_expression e = print_at 0 e @ [TEnd]"

section \<open>The parser seen from its remaining input\<close>

definition input :: "parser \<Rightarrow> token list" where
  "input p = drop (cursor p) (tokens p)"

definition shift :: "parser \<Rightarrow> nat \<Rightarrow> nat \<Rightarrow> parser" where
  "shift p k n = p\<lparr>cursor := cursor p + k, nodes := nodes p + n\<rparr>"

fun stops :: "nat \<Rightarrow> token list \<Rightarrow> bool" where
  \<comment> \<open>no operand printed before this input is extended by it at binding power \<open>m\<close>\<close>
  "stops m (TOperator operator # ts) =
     (case infix_binding_power operator of Some (l, r) \<Rightarrow> l < m | None \<Rightarrow> True)"
| "stops m (TLeftParen # ts) = False"
| "stops m ts = True"

lemma shift_simps [simp]:
  "tokens (shift p k n) = tokens p" "cursor (shift p k n) = cursor p + k" "nodes (shift p k n) = nodes p + n"
  "shift (shift p k n) k' n' = shift p (k + k') (n + n')" "shift p 0 0 = p"
  by (simp_all add: shift_def add.assoc)

lemma input_shift [simp]: "input (shift p k n) = drop k (input p)"
  by (simp add: input_def add.commute)

lemma advance_shift: "advance p = shift p 1 0"
  by (simp add: advance_def shift_def)

lemma nodes_shift: "p\<lparr>nodes := Suc (nodes p)\<rparr> = shift p 0 1"
  by (simp add: shift_def)

lemma peek_input: "peek p = (case input p of [] \<Rightarrow> TEnd | t # ts \<Rightarrow> t)"
  by (auto simp: peek_def input_def Cons_nth_drop_Suc [symmetric])

lemma remaining_input: "remaining p = length (input p)"
  by (simp add: input_def)

lemma node_result_shift:
  "nodes p < MAX_EXPRESSION_NODES \<Longrightarrow> node_result p e = Some (Inr (e, shift p 0 1))"
  by (simp add: node_result_def reserve_node_def shift_def)

lemma reserve_node_shift: "nodes p < MAX_EXPRESSION_NODES \<Longrightarrow> reserve_node p = Inr (shift p 0 1)"
  by (simp add: reserve_node_def shift_def)

lemma next_depth_ok: "d \<le> MAX_EXPRESSION_DEPTH \<Longrightarrow> next_depth d = Inr (Suc d)"
  by (simp add: next_depth_def checked_add_u64_def MAX_EXPRESSION_DEPTH_def)

lemma ensure_depth_ok: "d \<le> MAX_EXPRESSION_DEPTH \<Longrightarrow> ensure_depth d = Inr ()"
  by (simp add: ensure_depth_def)

lemmas parser_run = advance_shift node_result_shift reserve_node_shift next_depth_ok ensure_depth_ok
  next_token_def peek_input

lemma infix_binding_power_pair:
  "infix_binding_power operator = Some (l, r) \<Longrightarrow> r = Suc l \<and> l \<le> 11"
  by (auto simp: infix_binding_power_def split: if_splits)

lemma stops_13: "stops m ts \<Longrightarrow> stops 13 ts"
  by (cases "(m, ts)" rule: stops.cases)
     (auto split: option.splits dest: infix_binding_power_pair)

lemma stops_mono: "stops m ts \<Longrightarrow> m \<le> m' \<Longrightarrow> stops m' ts"
  by (cases "(m, ts)" rule: stops.cases) (auto split: option.splits)

lemma binary_loop_stops:
  "stops m (input p) \<Longrightarrow> 0 < fuel \<Longrightarrow> binary_loop fuel m d e p = Some (Inr (e, p))"
  by (cases fuel; cases "(m, input p)" rule: stops.cases)
     (auto simp: peek_input split: option.splits)

section \<open>Round trip\<close>

definition reads_at :: "nat \<Rightarrow> expression_node \<Rightarrow> bool" where
  \<comment> \<open>on the printed expression the parser builds it and goes on with the loop over operators\<close>
  "reads_at m e \<longleftrightarrow> (\<forall>m' d p rest fuel.
     input p = print_at m e @ rest \<longrightarrow> stops (Suc m) rest \<longrightarrow> m' \<le> m
     \<longrightarrow> d + print_depth m e \<le> MAX_EXPRESSION_DEPTH
     \<longrightarrow> nodes p + node_count e \<le> MAX_EXPRESSION_NODES \<longrightarrow> 4 * length (input p) + 4 \<le> fuel
     \<longrightarrow> (\<exists>fuel'. 4 * length rest + 1 \<le> fuel' \<and>
            parse_expression_at fuel m' d p =
              binary_loop fuel' m' d e (shift p (length (print_at m e)) (node_count e))))"

lemma reads_atD:
  assumes "reads_at m e" "input p = print_at m e @ rest" "stops (Suc m) rest" "m' \<le> m"
    "d + print_depth m e \<le> MAX_EXPRESSION_DEPTH" "nodes p + node_count e \<le> MAX_EXPRESSION_NODES"
    "4 * length (input p) + 4 \<le> fuel"
  obtains fuel' where "4 * length rest + 1 \<le> fuel'"
    "parse_expression_at fuel m' d p = binary_loop fuel' m' d e (shift p (length (print_at m e)) (node_count e))"
  using assms unfolding reads_at_def by blast

lemma reads_at_complete:
  assumes "reads_at m e" "input p = print_at m e @ rest" "stops m rest"
    "d + print_depth m e \<le> MAX_EXPRESSION_DEPTH" "nodes p + node_count e \<le> MAX_EXPRESSION_NODES"
    "4 * length (input p) + 4 \<le> fuel"
  shows "parse_expression_at fuel m d p = Some (Inr (e, shift p (length (print_at m e)) (node_count e)))"
proof -
  have "stops (Suc m) rest" using assms(3) by (rule stops_mono) simp
  from reads_atD [OF assms(1,2) this order.refl assms(4-6)] obtain fuel' where
    "4 * length rest + 1 \<le> fuel'"
    "parse_expression_at fuel m d p = binary_loop fuel' m d e (shift p (length (print_at m e)) (node_count e))" .
  then show ?thesis using assms(2,3) by (simp add: binary_loop_stops)
qed

lemma reads_at_prefix:
  assumes "\<And>d p rest fuel. input p = print_at m e @ rest \<Longrightarrow> stops (Suc m) rest \<Longrightarrow>
      d + print_depth m e \<le> MAX_EXPRESSION_DEPTH \<Longrightarrow> nodes p + node_count e \<le> MAX_EXPRESSION_NODES \<Longrightarrow>
      4 * length (input p) + 2 \<le> fuel \<Longrightarrow>
      parse_prefix (Suc fuel) d p = Some (Inr (e, shift p (length (print_at m e)) (node_count e)))"
  shows "reads_at m e"
  unfolding reads_at_def
proof (intro allI impI)
  fix m' d p rest and fuel :: nat
  assume *: "input p = print_at m e @ rest" "stops (Suc m) rest" "m' \<le> m"
    "d + print_depth m e \<le> MAX_EXPRESSION_DEPTH" "nodes p + node_count e \<le> MAX_EXPRESSION_NODES"
    and fuel: "4 * length (input p) + 4 \<le> fuel"
  then obtain f where f: "fuel = Suc (Suc f)" by (metis add_2_eq_Suc' le_Suc_ex numeral_Bit0 add.assoc add.commute)
  have "parse_prefix (Suc f) d p = Some (Inr (e, shift p (length (print_at m e)) (node_count e)))"
    using * fuel f by (intro assms) auto
  then have "parse_expression_at fuel m' d p =
      binary_loop (Suc f) m' d e (shift p (length (print_at m e)) (node_count e))"
    using *(4) f by (simp only: parse_expression_at.simps) (simp add: ensure_depth_ok)
  then show "\<exists>fuel'. 4 * length rest + 1 \<le> fuel' \<and> parse_expression_at fuel m' d p =
      binary_loop fuel' m' d e (shift p (length (print_at m e)) (node_count e))"
    using fuel f *(1) by (intro exI [of _ "Suc f"]) simp
qed

lemma array_loop_reads:
  "es \<noteq> [] \<Longrightarrow> \<forall>e\<in>set es. reads_at 0 e \<Longrightarrow>
   input p = comma_sep (map (print_at 0) es) @ TRightBracket # rest \<Longrightarrow>
   d + foldr max (map (\<lambda>e. 1 + print_depth 0 e) es) 0 \<le> MAX_EXPRESSION_DEPTH \<Longrightarrow>
   nodes p + sum_list (map node_count es) < MAX_EXPRESSION_NODES \<Longrightarrow>
   4 * length (input p) + 4 \<le> fuel \<Longrightarrow>
   array_loop (Suc fuel) d acc p =
     Some (Inr (ArrayNode (acc @ es),
       shift p (Suc (length (comma_sep (map (print_at 0) es)))) (Suc (sum_list (map node_count es)))))"
proof (induction es arbitrary: acc p fuel)
  case (Cons e es)
  obtain t ts where tail: "input p = print_at 0 e @ t # ts"
    "t = (if es = [] then TRightBracket else TComma)"
    "es \<noteq> [] \<Longrightarrow> ts = comma_sep (map (print_at 0) es) @ TRightBracket # rest"
    using Cons.prems(3) by (cases es) auto
  let ?q = "shift p (length (print_at 0 e)) (node_count e)"
  have head: "parse_expression_at fuel 0 (Suc d) p = Some (Inr (e, ?q))"
    by (rule reads_at_complete [OF _ tail(1)]) (use Cons.prems tail(2) in auto)
  show ?case
  proof (cases "es = []")
    case True
    then show ?thesis using head tail Cons.prems by (simp add: parser_run)
  next
    case False
    obtain f where f: "fuel = Suc f" using Cons.prems(6) by (cases fuel) simp_all
    have len: "length (input p) = length (print_at 0 e) + Suc (length ts)" using tail(1) by simp
    have "array_loop (Suc f) d (acc @ [e]) (shift ?q 1 0) =
        Some (Inr (ArrayNode ((acc @ [e]) @ es), shift (shift ?q 1 0)
          (Suc (length (comma_sep (map (print_at 0) es)))) (Suc (sum_list (map node_count es)))))"
    proof (rule Cons.IH [OF False])
      show "input (shift ?q 1 0) = comma_sep (map (print_at 0) es) @ TRightBracket # rest"
        using tail False by simp
    qed (use Cons.prems f tail(1) in \<open>simp_all add: len\<close>)
    moreover have "array_loop (Suc fuel) d acc p = array_loop (Suc f) d (acc @ [e]) (shift ?q 1 0)"
      unfolding array_loop.simps(2) [of fuel] using head tail False Cons.prems(4) f
      by (simp add: parser_run del: array_loop.simps)
    ultimately show ?thesis using False by (simp add: comma_sep_Cons add_ac)
  qed
qed simp

lemma call_loop_reads:
  "es \<noteq> [] \<Longrightarrow> \<forall>e\<in>set es. reads_at 0 e \<Longrightarrow>
   input p = comma_sep (map (print_at 0) es) @ TRightParen # rest \<Longrightarrow>
   d + foldr max (map (\<lambda>e. 1 + print_depth 0 e) es) 0 \<le> MAX_EXPRESSION_DEPTH \<Longrightarrow>
   nodes p + sum_list (map node_count es) < MAX_EXPRESSION_NODES \<Longrightarrow>
   4 * length (input p) + 4 \<le> fuel \<Longrightarrow>
   call_loop (Suc fuel) n d acc p =
     Some (Inr (Call n (acc @ es),
       shift p (Suc (length (comma_sep (map (print_at 0) es)))) (Suc (sum_list (map node_count es)))))"
proof (induction es arbitrary: acc p fuel)
  case (Cons e es)
  obtain t ts where tail: "input p = print_at 0 e @ t # ts"
    "t = (if es = [] then TRightParen else TComma)"
    "es \<noteq> [] \<Longrightarrow> ts = comma_sep (map (print_at 0) es) @ TRightParen # rest"
    using Cons.prems(3) by (cases es) auto
  let ?q = "shift p (length (print_at 0 e)) (node_count e)"
  have head: "parse_expression_at fuel 0 (Suc d) p = Some (Inr (e, ?q))"
    by (rule reads_at_complete [OF _ tail(1)]) (use Cons.prems tail(2) in auto)
  show ?case
  proof (cases "es = []")
    case True
    then show ?thesis using head tail Cons.prems by (simp add: parser_run)
  next
    case False
    obtain f where f: "fuel = Suc f" using Cons.prems(6) by (cases fuel) simp_all
    have len: "length (input p) = length (print_at 0 e) + Suc (length ts)" using tail(1) by simp
    have "call_loop (Suc f) n d (acc @ [e]) (shift ?q 1 0) =
        Some (Inr (Call n ((acc @ [e]) @ es), shift (shift ?q 1 0)
          (Suc (length (comma_sep (map (print_at 0) es)))) (Suc (sum_list (map node_count es)))))"
    proof (rule Cons.IH [OF False])
      show "input (shift ?q 1 0) = comma_sep (map (print_at 0) es) @ TRightParen # rest"
        using tail False by simp
    qed (use Cons.prems f tail(1) in \<open>simp_all add: len\<close>)
    moreover have "call_loop (Suc fuel) n d acc p = call_loop (Suc f) n d (acc @ [e]) (shift ?q 1 0)"
      unfolding call_loop.simps(2) [of fuel] using head tail False Cons.prems(4) f
      by (simp add: parser_run del: call_loop.simps)
    ultimately show ?thesis using False by (simp add: comma_sep_Cons add_ac)
  qed
qed simp

lemma print_at_head:
  "wf_ast e \<Longrightarrow> \<exists>t ts. print_at m e = t # ts \<and> t \<notin> {TRightBracket, TRightParen}"
proof (induction e arbitrary: m)
  case (Literal v)
  then show ?case by (cases v) simp_all
next
  case (Binary operator l r)
  then show ?case by (auto simp: Let_def) (metis append_Cons)
qed simp_all

lemma comma_sep_head:
  assumes "es \<noteq> []" "list_all wf_ast es"
  shows "\<exists>t ts. comma_sep (map (print_at 0) es) = t # ts \<and> t \<notin> {TRightBracket, TRightParen}"
  using assms print_at_head [of "hd es" 0] by (cases es) (auto simp: comma_sep_Cons)

lemma reads_at_array:
  assumes "list_all wf_ast es" "\<forall>e\<in>set es. reads_at 0 e"
  shows "reads_at m (ArrayNode es)"
proof (rule reads_at_prefix)
  fix d p rest fuel
  assume *: "input p = print_at m (ArrayNode es) @ rest"
    "d + print_depth m (ArrayNode es) \<le> MAX_EXPRESSION_DEPTH"
    "nodes p + node_count (ArrayNode es) \<le> MAX_EXPRESSION_NODES" "4 * length (input p) + 2 \<le> fuel"
  show "parse_prefix (Suc fuel) d p =
      Some (Inr (ArrayNode es, shift p (length (print_at m (ArrayNode es))) (node_count (ArrayNode es))))"
  proof (cases "es = []")
    case True
    then show ?thesis using * by (simp add: parser_run)
  next
    case False
    obtain f where f: "fuel = Suc f" using *(4) by (cases fuel) simp_all
    from False assms(1) obtain t ts where t: "comma_sep (map (print_at 0) es) = t # ts" "t \<noteq> TRightBracket"
      using comma_sep_head by blast
    have "array_loop (Suc f) d [] (shift p 1 0) = Some (Inr (ArrayNode ([] @ es), shift (shift p 1 0)
        (Suc (length (comma_sep (map (print_at 0) es)))) (Suc (sum_list (map node_count es)))))"
      by (rule array_loop_reads [OF False assms(2)]) (use * f in simp_all)
    then show ?thesis using * f t
      by (simp add: parser_run del: array_loop.simps)
  qed
qed

lemma reads_at_call:
  assumes "list_all wf_ast es" "\<forall>e\<in>set es. reads_at 0 e"
  shows "reads_at m (Call n es)"
proof (rule reads_at_prefix)
  fix d p rest fuel
  assume *: "input p = print_at m (Call n es) @ rest"
    "d + print_depth m (Call n es) \<le> MAX_EXPRESSION_DEPTH"
    "nodes p + node_count (Call n es) \<le> MAX_EXPRESSION_NODES" "4 * length (input p) + 2 \<le> fuel"
  obtain f where f: "fuel = Suc (Suc f)" using *(1,4) by (cases fuel; cases "fuel - 1") simp_all
  have "parse_call fuel n (Suc d) (shift p 2 0) =
      Some (Inr (Call n es, shift p (length (print_at m (Call n es))) (node_count (Call n es))))"
  proof (cases "es = []")
    case True
    then show ?thesis using * f by (simp add: parser_run)
  next
    case False
    from False assms(1) obtain t ts where t: "comma_sep (map (print_at 0) es) = t # ts" "t \<noteq> TRightParen"
      using comma_sep_head by blast
    have "call_loop (Suc f) n (Suc d) [] (shift p 2 0) = Some (Inr (Call n ([] @ es), shift (shift p 2 0)
        (Suc (length (comma_sep (map (print_at 0) es)))) (Suc (sum_list (map node_count es)))))"
      by (rule call_loop_reads [OF False assms(2)]) (use * f in simp_all)
    then show ?thesis using * f t
      by (simp add: parser_run del: call_loop.simps)
  qed
  then show "parse_prefix (Suc fuel) d p =
      Some (Inr (Call n es, shift p (length (print_at m (Call n es))) (node_count (Call n es))))"
    using * by (simp add: parser_run numeral_2_eq_2 del: parse_call.simps)
qed

lemma reads_at_unary:
  assumes "operator \<in> {''!'', ''-''}" "reads_at 13 e"
  shows "reads_at m (Unary operator e)"
proof (rule reads_at_prefix)
  fix d p rest fuel
  assume *: "input p = print_at m (Unary operator e) @ rest" "stops (Suc m) rest"
    "d + print_depth m (Unary operator e) \<le> MAX_EXPRESSION_DEPTH"
    "nodes p + node_count (Unary operator e) \<le> MAX_EXPRESSION_NODES" "4 * length (input p) + 2 \<le> fuel"
  have "parse_expression_at fuel 13 (Suc d) (shift p 1 0) =
      Some (Inr (e, shift (shift p 1 0) (length (print_at 13 e)) (node_count e)))"
    using * by (intro reads_at_complete [OF assms(2) _ stops_13 [OF *(2)]]) auto
  then show "parse_prefix (Suc fuel) d p =
      Some (Inr (Unary operator e, shift p (length (print_at m (Unary operator e))) (node_count (Unary operator e))))"
    using * assms(1) by (auto simp: parser_run simp del: parse_expression_at.simps)
qed

lemma reads_at_binary_open:
  assumes "infix_binding_power operator \<noteq> None" "reads_at (left_power operator) l"
    "reads_at (left_power operator + 1) r" "m \<le> left_power operator"
  shows "reads_at m (Binary operator l r)"
  unfolding reads_at_def
proof (intro allI impI)
  fix m' d p rest and fuel :: nat
  let ?e = "Binary operator l r" and ?lp = "left_power operator"
  let ?ls = "print_at ?lp l" and ?rs = "print_at (?lp + 1) r"
  assume *: "input p = print_at m ?e @ rest" "stops (Suc m) rest" "m' \<le> m"
    "d + print_depth m ?e \<le> MAX_EXPRESSION_DEPTH"
    "nodes p + node_count ?e \<le> MAX_EXPRESSION_NODES" "4 * length (input p) + 4 \<le> fuel"
  have power: "infix_binding_power operator = Some (?lp, ?lp + 1)"
    using assms(1) by (auto simp: left_power_def dest: infix_binding_power_pair)
  have inp: "input p = ?ls @ TOperator operator # ?rs @ rest"
    using *(1) assms(4) by (simp add: Let_def)
  have depth: "d + print_depth ?lp l \<le> MAX_EXPRESSION_DEPTH"
      "Suc d + print_depth (?lp + 1) r \<le> MAX_EXPRESSION_DEPTH"
    using *(4) assms(4) by (simp_all add: Let_def)
  obtain f where f: "4 * length (TOperator operator # ?rs @ rest) + 1 \<le> f" and
    l: "parse_expression_at fuel m' d p = binary_loop f m' d l (shift p (length ?ls) (node_count l))"
    by (rule reads_atD [OF assms(2) inp _ _ depth(1) _ *(6), of m']) (use power * assms(4) in auto)
  obtain g where g: "f = Suc g" using f by (cases f) simp_all
  let ?q = "shift p (length ?ls + 1) (node_count l)"
  have r: "parse_expression_at g (?lp + 1) (Suc d) ?q =
      Some (Inr (r, shift ?q (length ?rs) (node_count r)))"
    by (rule reads_at_complete [OF assms(3) _ stops_mono [OF *(2)] depth(2)])
       (use inp f g *(5) assms(4) in simp_all)
  have "binary_loop f m' d l (shift p (length ?ls) (node_count l)) =
      binary_loop g m' d ?e (shift p (length (print_at m ?e)) (node_count ?e))"
    unfolding g using inp power r *(3,4,5) assms(4)
    by (simp add: parser_run Let_def del: parse_expression_at.simps)
  then show "\<exists>fuel'. 4 * length rest + 1 \<le> fuel' \<and> parse_expression_at fuel m' d p =
      binary_loop fuel' m' d ?e (shift p (length (print_at m ?e)) (node_count ?e))"
    using l f g by (intro exI [of _ g]) simp
qed

lemma reads_at_binary_closed:
  assumes "reads_at 0 (Binary operator l r)" "left_power operator < m"
  shows "reads_at m (Binary operator l r)"
proof (rule reads_at_prefix)
  let ?e = "Binary operator l r"
  have pr: "print_at m ?e = TLeftParen # print_at 0 ?e @ [TRightParen]"
      "print_depth m ?e = Suc (print_depth 0 ?e)"
    using assms(2) by (simp_all add: Let_def)
  fix d p rest fuel
  assume *: "input p = print_at m ?e @ rest"
    "d + print_depth m ?e \<le> MAX_EXPRESSION_DEPTH"
    "nodes p + node_count ?e \<le> MAX_EXPRESSION_NODES" "4 * length (input p) + 2 \<le> fuel"
  have "parse_expression_at fuel 0 (Suc d) (shift p 1 0) =
      Some (Inr (?e, shift (shift p 1 0) (length (print_at 0 ?e)) (node_count ?e)))"
    by (rule reads_at_complete [OF assms(1), where rest = "TRightParen # rest"])
       (use * in \<open>simp_all add: pr del: print_at.simps print_depth.simps\<close>)
  then show "parse_prefix (Suc fuel) d p = Some (Inr (?e, shift p (length (print_at m ?e)) (node_count ?e)))"
    using * unfolding pr by (simp add: parser_run del: parse_expression_at.simps print_at.simps print_depth.simps)
qed

lemma reads_at_wf: "wf_ast e \<Longrightarrow> reads_at m e"
proof (induction e arbitrary: m)
  case (Literal v)
  show ?case by (rule reads_at_prefix) (use Literal in \<open>cases v; simp add: parser_run\<close>)
next
  case (Path s)
  show ?case
  proof (rule reads_at_prefix)
    fix d p rest fuel
    assume *: "input p = print_at m (Path s) @ rest" "stops (Suc m) rest"
      "d + print_depth m (Path s) \<le> MAX_EXPRESSION_DEPTH" "nodes p + node_count (Path s) \<le> MAX_EXPRESSION_NODES"
    have "peek (shift p 1 0) \<noteq> TLeftParen"
      using * by (cases rest) (auto simp: peek_input)
    then show "parse_prefix (Suc fuel) d p =
        Some (Inr (Path s, shift p (length (print_at m (Path s))) (node_count (Path s))))"
      using * Path by (simp add: parser_run)
  qed
next
  case (Binary operator l r)
  then have "reads_at m' (Binary operator l r)" if "m' \<le> left_power operator" for m'
    using that by (intro reads_at_binary_open) simp_all
  then show ?case
    by (cases "m \<le> left_power operator") (simp_all add: reads_at_binary_closed)
qed (simp_all add: reads_at_array reads_at_call reads_at_unary list_all_iff)

lemma parse_print_tokens:
  assumes "wf_ast e" "print_depth 0 e \<le> MAX_EXPRESSION_DEPTH" "node_count e \<le> MAX_EXPRESSION_NODES"
  shows "parse_tokens (print_expression e) = Some (Inr e)"
proof -
  let ?p = "parser_new (print_expression e)"
  have i: "input ?p = print_at 0 e @ [TEnd]" "nodes ?p = 0" "tokens ?p = input ?p"
    by (simp_all add: parser_new_def print_expression_def input_def)
  have "parse_expression 0 ?p = Some (Inr (e, shift ?p (length (print_at 0 e)) (node_count e)))"
    unfolding parse_expression_def
    by (rule reads_at_complete [OF reads_at_wf [OF assms(1)] i(1)])
       (use assms i in \<open>simp_all add: parse_fuel_def\<close>)
  then show ?thesis using i by (simp add: parse_tokens_def expect_end_def peek_input)
qed

section \<open>Printing as text\<close>

fun escape_char :: "char \<Rightarrow> string" where
  "escape_char c = (if c = CHR 0x5C \<or> c = CHR 0x22 then [CHR 0x5C, c] else [c])"

definition plain_identifier_char :: "char \<Rightarrow> bool" where
  "plain_identifier_char c \<longleftrightarrow> is_ascii_alphanumeric c \<or> c \<in> set ''_.-''"

definition lexer_operators :: "string list" where
  "lexer_operators =
     [''||'', ''&&'', ''=='', ''!='', ''>='', ''<='', ''!'', ''>'', ''<'', ''+'', ''-'', ''*'', ''/'', ''%'']"

fun token_text :: "token \<Rightarrow> string" where
  "token_text (TIdentifier s) = s"
| "token_text (TString s) = CHR 0x22 # concat (map escape_char s) @ [CHR 0x22]"
| "token_text (TNumber n) = (case n of PosInt k \<Rightarrow> nat_to_string k | _ \<Rightarrow> [])"
| "token_text (TBool b) = (if b then ''true'' else ''false'')"
| "token_text TNull = ''null''"
| "token_text (TOperator s) = s"
| "token_text TLeftParen = ''(''"
| "token_text TRightParen = '')''"
| "token_text TLeftBracket = ''[''"
| "token_text TRightBracket = '']''"
| "token_text TComma = '',''"
| "token_text TEnd = []"

fun wf_token :: "token \<Rightarrow> bool" where
  \<comment> \<open>the tokens with a text: identifiers without the extra step-path characters, natural numbers\<close>
  "wf_token (TIdentifier s) =
     (list_all plain_identifier_char s \<and> s \<notin> {''true'', ''false'', ''null''} \<and>
      (case s of [] \<Rightarrow> False | c # _ \<Rightarrow> is_ascii_alphabetic c \<or> c = CHR ''_''))"
| "wf_token (TNumber n) = (case n of PosInt k \<Rightarrow> k \<le> U64_MAX | _ \<Rightarrow> False)"
| "wf_token (TOperator s) = (s \<in> set lexer_operators)"
| "wf_token TEnd = False"
| "wf_token _ = True"

definition render :: "token list \<Rightarrow> string" where
  "render ts = concat (map (\<lambda>t. token_text t @ '' '') ts)"

lemma scan_string_escaped:
  "scan_string (CHR 0x22) (concat (map escape_char s) @ CHR 0x22 # rest) = Inr (s, rest)"
  by (induction s) (auto simp: unescape_def)

lemma scan_number_digits:
  "list_all is_ascii_digit s \<Longrightarrow> scan_number p (s @ CHR '' '' # rest) = (s, CHR '' '' # rest)"
  by (induction s arbitrary: p) (auto simp: is_ascii_digit_def)

lemma scan_identifier_plain:
  "list_all plain_identifier_char s \<Longrightarrow>
   scan_identifier i sp oc (s @ CHR '' '' # rest) = (i @ s, CHR '' '' # rest)"
  by (induction s arbitrary: i sp oc)
     (auto simp: plain_identifier_char_def Let_def rust_str)

lemma tokenize_from_space: "tokenize_from jn acc i (CHR '' '' # cs) = tokenize_from jn acc (i + 1) cs"
  by (subst tokenize_from.simps(2)) (simp add: rust_str)

lemma tokenize_from_text:
  assumes "wf_token t" "\<And>n. n \<le> U64_MAX \<Longrightarrow> jn (nat_to_string n) = Some (PosInt n)"
  shows "tokenize_from jn acc i (token_text t @ CHR '' '' # rest) =
     and_then (push_token acc t) (\<lambda>acc. tokenize_from jn acc (i + length (token_text t) + 1) rest)"
proof (cases t)
  case (TIdentifier s)
  then obtain c cs where s: "s = c # cs" using assms(1) by (cases s) simp_all
  then have c: "is_ascii_alphabetic c \<or> c = CHR ''_''" "list_all plain_identifier_char cs"
      "identifier_token s = t"
    using assms(1) TIdentifier by (auto simp: identifier_token_def)
  have "\<not> is_whitespace c" "c \<noteq> CHR 0x27" "c \<noteq> CHR 0x22" "\<not> is_ascii_digit c" "c \<noteq> CHR ''.''"
    using c(1) by (auto simp: rust_str)
  then show ?thesis using c s TIdentifier
    by (simp add: tokenize_from.simps(2) [of jn acc i] scan_identifier_plain tokenize_from_space)
next
  case (TNumber n)
  then obtain k where k: "n = PosInt k" "k \<le> U64_MAX" using assms(1) by (cases n) simp_all
  obtain c cs where s: "nat_to_string k = c # cs" by (meson list.exhaust nat_to_string_not_Nil)
  have d: "list_all is_ascii_digit (c # cs)" using nat_to_string_digits [of k] s by simp
  then have "set (c # cs) \<inter> {CHR ''.'', CHR ''e'', CHR ''E''} = {}"
    by (auto simp: list_all_iff rust_str)
  then have "parse_number_literal jn (c # cs) = Inr n"
    using assms(2) [OF k(2)] k s by (simp add: parse_number_literal_def is_u64_def)
  moreover have "\<not> is_whitespace c" "c \<noteq> CHR 0x27" "c \<noteq> CHR 0x22"
    using d by (auto simp: rust_str)
  ultimately show ?thesis using d k s TNumber
    by (simp add: tokenize_from.simps(2) [of jn acc i] scan_number_digits tokenize_from_space)
next
  case (TBool b)
  have "list_all plain_identifier_char ''alse''" "list_all plain_identifier_char ''rue''"
    by (simp_all add: plain_identifier_char_def rust_str)
  note * = this [THEN scan_identifier_plain, simplified]
  show ?thesis
    unfolding TBool by (cases b) (simp_all add: tokenize_from.simps(2) [of jn acc i] * rust_str
        identifier_token_def tokenize_from_space)
next
  case TNull
  have "list_all plain_identifier_char ''ull''"
    by (simp add: plain_identifier_char_def rust_str)
  note * = this [THEN scan_identifier_plain, simplified]
  show ?thesis
    unfolding TNull by (simp add: tokenize_from.simps(2) [of jn acc i] * rust_str
        identifier_token_def tokenize_from_space)
next
  case (TString s)
  show ?thesis
    unfolding TString token_text.simps append_Cons append_assoc append_Nil
      tokenize_from.simps(2) [of jn acc i] scan_string_escaped
    by (simp add: rust_str tokenize_from_space)
next
  case (TOperator s)
  then have "s \<in> set lexer_operators" using assms(1) by simp
  then show ?thesis
    unfolding TOperator lexer_operators_def token_text.simps
    by (auto simp: tokenize_from.simps(2) [of jn acc i] operator_pair_def single_token_def rust_str
        tokenize_from_space)
qed (use assms(1) in \<open>simp_all add: tokenize_from.simps(2) [of jn acc i] operator_pair_def single_token_def
       rust_str tokenize_from_space\<close>)

lemma tokenize_from_render:
  assumes "\<And>n. n \<le> U64_MAX \<Longrightarrow> jn (nat_to_string n) = Some (PosInt n)"
  shows "list_all wf_token ts \<Longrightarrow> length acc + length ts < MAX_EXPRESSION_TOKENS \<Longrightarrow>
    tokenize_from jn acc i (render ts) = Inr (acc @ ts @ [TEnd])"
proof (induction ts arbitrary: acc i)
  case Nil
  then show ?case by (simp add: render_def push_token_def)
next
  case (Cons t ts)
  have "render (t # ts) = token_text t @ CHR '' '' # render ts" by (simp add: render_def)
  moreover have "push_token acc t = Inr (acc @ [t])" using Cons.prems by (simp add: push_token_def)
  ultimately show ?case
    using Cons.prems tokenize_from_text [of t jn] assms by (simp add: Cons.IH)
qed

lemma tokenize_render:
  assumes "\<And>n. n \<le> U64_MAX \<Longrightarrow> jn (nat_to_string n) = Some (PosInt n)"
    "list_all wf_token ts" "length ts < MAX_EXPRESSION_TOKENS" "byte_len (render ts) \<le> MAX_EXPRESSION_BYTES"
  shows "tokenize jn (render ts) = Inr (ts @ [TEnd])"
  using assms by (simp add: tokenize_def ensure_expression_bytes_def tokenize_from_render)

definition decimal_number :: "string \<Rightarrow> number option" where
  \<comment> \<open>a number reader that knows only the natural numbers of the number type\<close>
  "decimal_number s = map_option PosInt (parse_unsigned U64_MAX s)"

lemma decimal_number_nat: "n \<le> U64_MAX \<Longrightarrow> decimal_number (nat_to_string n) = Some (PosInt n)"
  by (simp add: decimal_number_def parse_nat_to_string)

lemma decimal_number_wf: "decimal_number s = Some n \<Longrightarrow> number_wf n"
  by (auto simp: decimal_number_def dest: parse_unsigned_bound)

lemma parse_source_text:
  assumes "\<And>n. n \<le> U64_MAX \<Longrightarrow> jn (nat_to_string n) = Some (PosInt n)"
    "wf_ast e" "list_all wf_token (print_at 0 e)"
    "print_depth 0 e \<le> MAX_EXPRESSION_DEPTH" "node_count e \<le> MAX_EXPRESSION_NODES"
    "length (print_at 0 e) < MAX_EXPRESSION_TOKENS" "byte_len (render (print_at 0 e)) \<le> MAX_EXPRESSION_BYTES"
  shows "parse_source jn (render (print_at 0 e)) = Some (Inr e)"
  using tokenize_render [OF assms(1,3,6,7)] parse_print_tokens [OF assms(2,4,5)]
  by (simp add: parse_source_def print_expression_def)

section \<open>Properties\<close>

text \<open>C14: The parser inverts the printer: the text of an expression, with brackets only where the
  precedence table asks for them, is read back as the same expression, as long as it keeps to the
  limits on bytes, tokens, nesting and nodes and the JSON number reader reads the decimal
  digits of a 64-bit natural number.\<close>

theorem parse_printed_source:
  assumes "\<And>n. n \<le> U64_MAX \<Longrightarrow> jn (nat_to_string n) = Some (PosInt n)"
    "wf_ast e" "list_all wf_token (print_at 0 e)"
    "print_depth 0 e \<le> MAX_EXPRESSION_DEPTH" "node_count e \<le> MAX_EXPRESSION_NODES"
    "length (print_at 0 e) < MAX_EXPRESSION_TOKENS" "byte_len (render (print_at 0 e)) \<le> MAX_EXPRESSION_BYTES"
  shows "parse_source jn (render (print_at 0 e)) = Some (Inr e)"
  using assms by (rule parse_source_text)

theorem parse_printed_source_witness:
  "parse_source decimal_number ''inputs.a - ( 2 - 1 ) * ! true '' =
     Some (Inr (Binary ''-'' (Path ''inputs.a'')
       (Binary ''*'' (Binary ''-'' (Literal (Number (PosInt 2))) (Literal (Number (PosInt 1))))
         (Unary ''!'' (Literal (Bool True))))))"
proof -
  let ?e = "Binary ''-'' (Path ''inputs.a'')
       (Binary ''*'' (Binary ''-'' (Literal (Number (PosInt 2))) (Literal (Number (PosInt 1))))
         (Unary ''!'' (Literal (Bool True))))"
  have print: "print_at 0 ?e = [TIdentifier ''inputs.a'', TOperator ''-'', TLeftParen, TNumber (PosInt 2),
      TOperator ''-'', TNumber (PosInt 1), TRightParen, TOperator ''*'', TOperator ''!'', TBool True]"
    by (simp add: left_power_def infix_binding_power_def)
  have rendered: "render (print_at 0 ?e) = ''inputs.a - ( 2 - 1 ) * ! true ''"
  proof -
    have "nat_to_string 2 = ''2''" "nat_to_string 1 = ''1''" by code_simp+
    then show ?thesis unfolding print by (simp add: render_def)
  qed
  have "parse_source decimal_number (render (print_at 0 ?e)) = Some (Inr ?e)"
  proof (rule parse_printed_source)
    show "wf_ast ?e"
      by (simp add: infix_binding_power_def is_path_identifier_def starts_with_def MAX_EXPRESSION_DEPTH_def)
    show "list_all wf_token (print_at 0 ?e)"
      unfolding print by (simp add: plain_identifier_char_def lexer_operators_def rust_str)
    show "print_depth 0 ?e \<le> MAX_EXPRESSION_DEPTH"
      by (simp add: left_power_def infix_binding_power_def MAX_EXPRESSION_DEPTH_def)
    show "length (print_at 0 ?e) < MAX_EXPRESSION_TOKENS"
      unfolding print by (simp add: MAX_EXPRESSION_TOKENS_def)
    show "byte_len (render (print_at 0 ?e)) \<le> MAX_EXPRESSION_BYTES"
      unfolding rendered by (simp add: rust_str MAX_EXPRESSION_BYTES_def)
  qed (simp_all add: decimal_number_nat MAX_EXPRESSION_NODES_def)
  then show ?thesis unfolding rendered .
qed

text \<open>C17: Parsing ends on every token list, and what it accepts is a well-formed expression with at
  most 2048 nodes, a count that the parser's own budget equals.\<close>

theorem parse_tokens_bounded:
  "parse_tokens ts \<noteq> None \<and> (\<forall>e. parse_tokens ts = Some (Inr e) \<longrightarrow> wf_ast e \<and> node_count e \<le> 2048)"
proof -
  have "wf_ast e \<and> node_count e \<le> 2048" if "parse_tokens ts = Some (Inr e)" for e
  proof -
    from that obtain p where "parse_expression 0 (parser_new ts) = Some (Inr (e, p))"
      by (auto simp: parse_tokens_def pand_Inr_iff)
    then show ?thesis
      using parser_progress(1) parser_wf_ast(1)
      by (fastforce simp: parse_expression_def consumed_def parser_new_def MAX_EXPRESSION_NODES_def)
  qed
  then show ?thesis using parse_tokens_returns by blast
qed

theorem parse_tokens_bounded_witness:
  "wf_ast (Literal Null) \<and> node_count (Literal Null) \<le> 2048"
  using parse_tokens_bounded [of "print_expression (Literal Null)"] parse_print_tokens [of "Literal Null"]
  by (simp add: MAX_EXPRESSION_NODES_def)

end
