(* ===== verification/ExprEval.thy ===== *)
theory ExprEval
  imports Json
begin

text \<open>
  The operators and functions of the expression language
  (\<open>crates/contract/src/expr/eval.rs\<close>): exact comparison of JSON numbers, the one equality
  relation, ordering, arithmetic in doubles, and the built-in functions. An error is the
  message the source returns. The tables of \<open>str::to_uppercase\<close> are followed for the
  characters of the model; \<open>up\<close> gives the capitals of the two characters (U+00B5 and U+00FF)
  whose capital is outside that range.
\<close>

section \<open>String operations of the standard library\<close>

definition upper_char :: "(char \<Rightarrow> string) \<Rightarrow> char \<Rightarrow> string" where
  "upper_char up c =
     (let n = code_point c in
      if 97 \<le> n \<and> n \<le> 122 \<or> 224 \<le> n \<and> n \<le> 254 \<and> n \<noteq> 247 then [char_of (n - 32)]
      else if n = 223 then ''SS''
      else if n = 181 \<or> n = 255 then up c
      else [c])"

definition lower_char :: "char \<Rightarrow> char" where
  "lower_char c =
     (let n = code_point c in
      if 65 \<le> n \<and> n \<le> 90 \<or> 192 \<le> n \<and> n \<le> 222 \<and> n \<noteq> 215 then char_of (n + 32) else c)"

definition to_uppercase :: "(char \<Rightarrow> string) \<Rightarrow> string \<Rightarrow> string" where
  "to_uppercase up s = concat (map (upper_char up) s)"

definition to_lowercase :: "string \<Rightarrow> string" where
  "to_lowercase s = map lower_char s"

function split_sep :: "string \<Rightarrow> string \<Rightarrow> string list" where
  \<comment> \<open>the parts between the leftmost matches of a nonempty separator\<close>
  "split_sep sep [] = [[]]"
| "split_sep sep (c # cs) =
     (case strip_prefix sep (c # cs) of
        Some rest \<Rightarrow> if sep = [] then [c # cs] else [] # split_sep sep rest
      | None \<Rightarrow> (case split_sep sep cs of [] \<Rightarrow> [[c]] | p # ps \<Rightarrow> (c # p) # ps))"
  by pat_completeness auto
termination
  by (relation "measure (\<lambda>(sep, s). length s)") (auto simp: strip_prefix_Some_iff Cons_eq_append_conv)

definition split_str :: "string \<Rightarrow> string \<Rightarrow> string list" where
  \<comment> \<open>\<open>str::split\<close> with a string pattern: the empty pattern matches around every character\<close>
  "split_str sep s = (if sep = [] then [] # map (\<lambda>c. [c]) s @ [[]] else split_sep sep s)"

definition replace_str :: "string \<Rightarrow> string \<Rightarrow> string \<Rightarrow> string" where
  "replace_str from to s = join_with to (split_str from s)"

section \<open>Numbers\<close>

definition I128_LIMIT :: f64 where
  "I128_LIMIT = Finite False (2 ^ 127)"

definition f64_fract_zero :: "f64 \<Rightarrow> bool" where
  \<comment> \<open>\<open>value.fract() == 0.0\<close> for a finite double\<close>
  "f64_fract_zero f \<longleftrightarrow> f64_val f = of_int \<lfloor>f64_val f\<rfloor>"

definition exact_integer :: "number \<Rightarrow> int option" where
  "exact_integer number =
     (case as_i64 number of
        Some value \<Rightarrow> Some value
      | None \<Rightarrow>
          (case as_u64 number of
             Some value \<Rightarrow> Some (int value)
           | None \<Rightarrow>
               (case as_f64 number of
                  None \<Rightarrow> None
                | Some value \<Rightarrow>
                    if \<not> is_finite value \<or> \<not> f64_fract_zero value \<or> f64_lt value (f64_neg I128_LIMIT)
                       \<or> f64_ge value I128_LIMIT
                    then None else Some \<lfloor>f64_val value\<rfloor>)))"

definition compare_numbers :: "number \<Rightarrow> number \<Rightarrow> ordering option" where
  "compare_numbers left right =
     (case (exact_integer left, exact_integer right) of
        (Some l, Some r) \<Rightarrow> Some (cmp l r)
      | _ \<Rightarrow> (case as_f64 left of
                None \<Rightarrow> None
              | Some l \<Rightarrow> (case as_f64 right of None \<Rightarrow> None | Some r \<Rightarrow> f64_partial_cmp l r)))"

definition as_number :: "json \<Rightarrow> string \<Rightarrow> string + f64" where
  "as_number v operator =
     ok_or (json_as_f64 v) (''operator `'' @ operator @ ''` requires numbers'')"

definition number_value :: "f64 \<Rightarrow> string + json" where
  "number_value v =
     (case number_from_f64 v of
        Some n \<Rightarrow> Inr (Number n)
      | None \<Rightarrow> Inl ''numeric expression result is not finite'')"

fun truthy :: "json \<Rightarrow> bool" where
  "truthy Null = False"
| "truthy (Bool b) = b"
| "truthy (Number n) = (case as_f64 n of None \<Rightarrow> False | Some f \<Rightarrow> \<not> f64_eq f f64_zero)"
| "truthy (String s) = (s \<noteq> [])"
| "truthy (Array vs) = (vs \<noteq> [])"
| "truthy (Object m) = (m \<noteq> [])"

section \<open>Equality and ordering\<close>

lemma size_zip_set: "(x, y) \<in> set (zip xs ys) \<Longrightarrow> size x < Suc (size_list size xs)"
  by (induction xs ys rule: list_induct2') auto

lemma size_entry_set:
  "(k, v) \<in> set m \<Longrightarrow> size v < Suc (size_list (size_prod (\<lambda>_. 0) size) m)"
  by (induction m) auto

function values_equal :: "json \<Rightarrow> json \<Rightarrow> bool" where
  "values_equal left right =
     (case (left, right) of
        (Number l, Number r) \<Rightarrow> compare_numbers l r = Some Equal
      | (Array l, Array r) \<Rightarrow> length l = length r \<and> list_all (\<lambda>(a, b). values_equal a b) (zip l r)
      | (Object l, Object r) \<Rightarrow>
          length l = length r \<and>
          list_all (\<lambda>(key, v). (case bt_get r key of None \<Rightarrow> False | Some other \<Rightarrow> values_equal v other)) l
      | _ \<Rightarrow> left = right)"
  by auto
termination
  by (relation "measure (\<lambda>(l, r). size l)")
     (auto dest: size_zip_set size_entry_set)

declare values_equal.simps [simp del]

definition unordered_array_error :: "string \<Rightarrow> string" where
  "unordered_array_error name = name @ ''() requires an array of numbers, strings, or booleans''"

fun compare_json_scalar :: "json \<Rightarrow> json \<Rightarrow> ordering option" where
  "compare_json_scalar (Number l) (Number r) = compare_numbers l r"
| "compare_json_scalar (String l) (String r) = Some (cmp l r)"
| "compare_json_scalar (Bool l) (Bool r) = Some (cmp l r)"
| "compare_json_scalar _ _ = None"

definition is_orderable_scalar :: "json \<Rightarrow> bool" where
  "is_orderable_scalar v \<longleftrightarrow> compare_json_scalar v v \<noteq> None"

definition compare_ordered_by :: "ordering \<Rightarrow> string \<Rightarrow> string + bool" where
  "compare_ordered_by order operator =
     (if operator = ''>'' then Inr (order = Greater)
      else if operator = ''<'' then Inr (order = Less)
      else if operator = ''>='' then Inr (order \<noteq> Less)
      else if operator = ''<='' then Inr (order \<noteq> Greater)
      else Inl (''unknown ordering operator `'' @ operator @ ''`''))"

definition compare_ordered :: "'a::linorder \<Rightarrow> string \<Rightarrow> 'a \<Rightarrow> string + bool" where
  "compare_ordered left operator right =
     (if operator = ''>'' then Inr (left > right)
      else if operator = ''<'' then Inr (left < right)
      else if operator = ''>='' then Inr (left \<ge> right)
      else if operator = ''<='' then Inr (left \<le> right)
      else Inl (''unknown ordering operator `'' @ operator @ ''`''))"

definition compare_order :: "json \<Rightarrow> string \<Rightarrow> json \<Rightarrow> string + bool" where
  "compare_order left operator right =
     (case (left, right) of
        (String l, String r) \<Rightarrow> compare_ordered l operator r
      | (Number l, Number r) \<Rightarrow>
          and_then
            (ok_or (compare_numbers l r)
              (if as_f64 l = None then ''invalid left number'' else ''invalid right number''))
            (\<lambda>order. compare_ordered_by order operator)
      | (Bool _, Bool _) \<Rightarrow> Inl (''operator `'' @ operator @ ''` is not valid for booleans'')
      | (Null, Null) \<Rightarrow> Inl (''operator `'' @ operator @ ''` is not valid for null'')
      | _ \<Rightarrow> Inl (''type mismatch in expression with operator `'' @ operator @ ''`''))"

definition evaluate_arithmetic :: "string \<Rightarrow> f64 \<Rightarrow> f64 \<Rightarrow> string + f64" where
  "evaluate_arithmetic operator left right =
     (if operator = ''+'' then Inr (f64_add left right)
      else if operator = ''-'' then Inr (f64_sub left right)
      else if operator = ''*'' then Inr (f64_mul left right)
      else if operator = ''/'' then
        (if f64_eq right f64_zero then Inl ''division by zero'' else Inr (f64_div left right))
      else if operator = ''%'' then
        (if f64_eq right f64_zero then Inl ''remainder by zero'' else Inr (f64_rem left right))
      else Inl (''unknown arithmetic operator `'' @ operator @ ''`''))"

definition evaluate_binary :: "string \<Rightarrow> json \<Rightarrow> json \<Rightarrow> string + json" where
  "evaluate_binary operator left right =
     (if operator = ''||'' then Inr (Bool (truthy left \<or> truthy right))
      else if operator = ''&&'' then Inr (Bool (truthy left \<and> truthy right))
      else if operator = ''=='' then Inr (Bool (values_equal left right))
      else if operator = ''!='' then Inr (Bool (\<not> values_equal left right))
      else if operator \<in> {''>'', ''<'', ''>='', ''<=''} then
        and_then (compare_order left operator right) (\<lambda>b. Inr (Bool b))
      else if operator \<in> {''+'', ''-'', ''*'', ''/'', ''%''} then
        and_then (as_number left operator) (\<lambda>l.
        and_then (as_number right operator) (\<lambda>r.
        and_then (evaluate_arithmetic operator l r) number_value))
      else Inl (''unknown operator `'' @ operator @ ''`''))"

section \<open>Functions\<close>

fun stable_insert :: "('a \<Rightarrow> 'a \<Rightarrow> ordering) \<Rightarrow> 'a \<Rightarrow> 'a list \<Rightarrow> 'a list" where
  "stable_insert compare x [] = [x]"
| "stable_insert compare x (y # ys) =
     (if compare y x = Less then y # stable_insert compare x ys else x # y # ys)"

definition sort_by :: "('a \<Rightarrow> 'a \<Rightarrow> ordering) \<Rightarrow> 'a list \<Rightarrow> 'a list" where
  \<comment> \<open>\<open>slice::sort_by\<close>, the stable sort\<close>
  "sort_by compare xs = foldr (stable_insert compare) xs []"

fun sort_checked :: "json option \<Rightarrow> json list \<Rightarrow> bool" where
  \<comment> \<open>the pass over the elements; the first argument is the element before\<close>
  "sort_checked previous [] = True"
| "sort_checked previous (v # vs) =
     (is_orderable_scalar v
      \<and> (case previous of None \<Rightarrow> True | Some p \<Rightarrow> compare_json_scalar p v \<noteq> None)
      \<and> sort_checked (Some v) vs)"

definition sort_values :: "json list \<Rightarrow> string + json list" where
  "sort_values items =
     (if sort_checked None items
      then Inr (sort_by (\<lambda>l r. (case compare_json_scalar l r of None \<Rightarrow> Equal | Some order \<Rightarrow> order)) items)
      else Inl (unordered_array_error ''sort''))"

fun extreme_loop :: "string \<Rightarrow> ordering \<Rightarrow> json option \<Rightarrow> json list \<Rightarrow> string + json" where
  "extreme_loop name wanted selected [] = Inr (case selected of None \<Rightarrow> Null | Some v \<Rightarrow> v)"
| "extreme_loop name wanted selected (item # items) =
     (if \<not> is_orderable_scalar item then Inl (unordered_array_error name)
      else (case selected of
          None \<Rightarrow> extreme_loop name wanted (Some item) items
        | Some current \<Rightarrow>
            (case compare_json_scalar item current of
               None \<Rightarrow> Inl (unordered_array_error name)
             | Some order \<Rightarrow>
                 extreme_loop name wanted (Some (if order = wanted then item else current)) items)))"

definition extreme :: "json list \<Rightarrow> string \<Rightarrow> ordering \<Rightarrow> string + json" where
  "extreme items name wanted = extreme_loop name wanted None items"

definition join_values :: "json \<Rightarrow> string \<Rightarrow> string + json" where
  "join_values v separator =
     (case v of
        Array items \<Rightarrow>
          and_then (collect_results
              (map (\<lambda>item. ok_or (json_as_str item) ''join() requires an array of strings'') items))
            (\<lambda>parts. Inr (String (join_with separator parts)))
      | _ \<Rightarrow> Inl ''join() requires an array'')"

definition flatten :: "json list \<Rightarrow> json list" where
  "flatten items = concat (map (\<lambda>item. (case item of Array nested \<Rightarrow> nested | _ \<Rightarrow> [item])) items)"

fun unique_loop :: "json list \<Rightarrow> json list \<Rightarrow> json list" where
  "unique_loop seen [] = seen"
| "unique_loop seen (item # items) =
     unique_loop (if list_ex (\<lambda>s. values_equal s item) seen then seen else seen @ [item]) items"

fun sum_loop :: "f64 \<Rightarrow> json list \<Rightarrow> string + f64" where
  "sum_loop acc [] = Inr acc"
| "sum_loop acc (item # items) =
     and_then (as_number item ''sum()'') (\<lambda>v. sum_loop (f64_add acc v) items)"

definition contains_value :: "json \<Rightarrow> json \<Rightarrow> string + bool" where
  "contains_value container needle =
     (case (container, needle) of
        (String s, String n) \<Rightarrow> Inr (contains_str s n)
      | (Array items, n) \<Rightarrow> Inr (list_ex (\<lambda>item. values_equal item n) items)
      | (Object m, String n) \<Rightarrow> Inr (bt_contains_key m n)
      | _ \<Rightarrow> Inl ''contains() received incompatible arguments'')"

fun value_length :: "json \<Rightarrow> string + nat" where
  "value_length (String s) = Inr (length s)"
| "value_length (Array vs) = Inr (length vs)"
| "value_length (Object m) = Inr (length m)"
| "value_length _ = Inl ''len() requires a string, array, or object''"

fun with_string :: "string \<Rightarrow> json \<Rightarrow> (string \<Rightarrow> json) \<Rightarrow> string + json" where
  "with_string error (String s) f = Inr (f s)"
| "with_string error _ f = Inl error"

fun with_array :: "string \<Rightarrow> json \<Rightarrow> (json list \<Rightarrow> string + json) \<Rightarrow> string + json" where
  "with_array error (Array vs) f = f vs"
| "with_array error _ f = Inl error"

fun with_object :: "string \<Rightarrow> json \<Rightarrow> ((string, json) btree \<Rightarrow> json) \<Rightarrow> string + json" where
  "with_object error (Object m) f = Inr (f m)"
| "with_object error _ f = Inl error"

definition with_strings :: "string \<Rightarrow> json \<Rightarrow> json \<Rightarrow> (string \<Rightarrow> string \<Rightarrow> json) \<Rightarrow> string + json" where
  "with_strings error a b f =
     (case (a, b) of (String s, String t) \<Rightarrow> Inr (f s t) | _ \<Rightarrow> Inl error)"

definition unary_call :: "string \<Rightarrow> (json \<Rightarrow> string + json) \<Rightarrow> json list \<Rightarrow> string + json" where
  "unary_call arity f arguments = (case arguments of [v] \<Rightarrow> f v | _ \<Rightarrow> Inl arity)"

definition binary_call :: "string \<Rightarrow> (json \<Rightarrow> json \<Rightarrow> string + json) \<Rightarrow> json list \<Rightarrow> string + json" where
  "binary_call arity f arguments = (case arguments of [v, w] \<Rightarrow> f v w | _ \<Rightarrow> Inl arity)"

definition replace_call :: "json list \<Rightarrow> string + json" where
  "replace_call arguments =
     (case arguments of
        [v, f, t] \<Rightarrow>
          (case (v, f, t) of
             (String s, String from, String to) \<Rightarrow> Inr (String (replace_str from to s))
           | _ \<Rightarrow> Inl ''replace() requires three strings'')
      | _ \<Rightarrow> Inl ''replace() requires exactly three strings'')"

definition join_call :: "json list \<Rightarrow> string + json" where
  "join_call arguments =
     (case arguments of
        [v] \<Rightarrow> join_values v []
      | [v, w] \<Rightarrow> (case w of String separator \<Rightarrow> join_values v separator
                    | _ \<Rightarrow> Inl ''join() separator must be a string'')
      | _ \<Rightarrow> Inl ''join() requires an array and an optional separator'')"

definition builtins :: "(char \<Rightarrow> string) \<Rightarrow> (string \<times> (json list \<Rightarrow> string + json)) list" where
  "builtins up =
    [(''len'', unary_call ''len() requires exactly one argument''
        (\<lambda>v. and_then (value_length v) (\<lambda>n. Inr (Number (number_from_u64 (n mod 2 ^ 64)))))),
     (''contains'', binary_call ''contains() requires exactly two arguments''
        (\<lambda>v w. and_then (contains_value v w) (\<lambda>b. Inr (Bool b)))),
     (''empty'', unary_call ''empty() requires exactly one argument''
        (\<lambda>v. Inr (Bool (\<not> truthy v)))),
     (''default'', binary_call ''default() requires exactly two arguments''
        (\<lambda>v w. Inr (if v = Null then w else v))),
     (''upper'', unary_call ''upper() requires exactly one string''
        (\<lambda>v. with_string ''upper() requires a string'' v (\<lambda>s. String (to_uppercase up s)))),
     (''lower'', unary_call ''lower() requires exactly one string''
        (\<lambda>v. with_string ''lower() requires a string'' v (\<lambda>s. String (to_lowercase s)))),
     (''trim'', unary_call ''trim() requires exactly one string''
        (\<lambda>v. with_string ''trim() requires a string'' v (\<lambda>s. String (trim s)))),
     (''starts_with'', binary_call ''starts_with() requires exactly two strings''
        (\<lambda>v w. with_strings ''starts_with() requires two strings'' v w (\<lambda>s t. Bool (starts_with s t)))),
     (''ends_with'', binary_call ''ends_with() requires exactly two strings''
        (\<lambda>v w. with_strings ''ends_with() requires two strings'' v w (\<lambda>s t. Bool (ends_with s t)))),
     (''replace'', replace_call),
     (''split'', binary_call ''split() requires exactly two strings''
        (\<lambda>v w. with_strings ''split() requires two strings'' v w (\<lambda>s t. Array (map String (split_str t s))))),
     (''join'', join_call),
     (''first'', unary_call ''first() requires exactly one array''
        (\<lambda>v. with_array ''first() requires an array'' v (\<lambda>items. Inr (case items of [] \<Rightarrow> Null | i # _ \<Rightarrow> i)))),
     (''last'', unary_call ''last() requires exactly one array''
        (\<lambda>v. with_array ''last() requires an array'' v (\<lambda>items. Inr (if items = [] then Null else last items)))),
     (''keys'', unary_call ''keys() requires exactly one object''
        (\<lambda>v. with_object ''keys() requires an object'' v (\<lambda>m. Array (map String (bt_keys m))))),
     (''values'', unary_call ''values() requires exactly one object''
        (\<lambda>v. with_object ''values() requires an object'' v (\<lambda>m. Array (map snd m)))),
     (''reverse'', unary_call ''reverse() requires exactly one array''
        (\<lambda>v. with_array ''reverse() requires an array'' v (\<lambda>items. Inr (Array (rev items))))),
     (''flatten'', unary_call ''flatten() requires exactly one array''
        (\<lambda>v. with_array ''flatten() requires an array'' v (\<lambda>items. Inr (Array (flatten items))))),
     (''unique'', unary_call ''unique() requires exactly one array''
        (\<lambda>v. with_array ''unique() requires an array'' v (\<lambda>items. Inr (Array (unique_loop [] items))))),
     (''sort'', unary_call ''sort() requires exactly one array''
        (\<lambda>v. with_array ''sort() requires an array'' v (\<lambda>items. and_then (sort_values items) (\<lambda>vs. Inr (Array vs))))),
     (''sum'', unary_call ''sum() requires exactly one array''
        (\<lambda>v. with_array ''sum() requires an array'' v (\<lambda>items. and_then (sum_loop f64_zero items) number_value))),
     (''min'', unary_call ''min() requires exactly one array''
        (\<lambda>v. with_array ''min() requires an array'' v (\<lambda>items. extreme items ''min'' Less))),
     (''max'', unary_call ''max() requires exactly one array''
        (\<lambda>v. with_array ''max() requires an array'' v (\<lambda>items. extreme items ''max'' Greater)))]"

definition evaluate_call :: "(char \<Rightarrow> string) \<Rightarrow> string \<Rightarrow> json list \<Rightarrow> string + json" where
  "evaluate_call up name arguments =
     (case map_of (builtins up) name of
        Some f \<Rightarrow> f arguments
      | None \<Rightarrow> Inl (''unknown expression function `'' @ name @ ''`''))"

end
