(* ===== verification/ExprOrder.thy ===== *)
theory ExprOrder
  imports ExprEval "HOL-Library.Multiset"
begin

text \<open>
  What the comparisons of \<open>crates/contract/src/expr/eval.rs\<close> decide: numbers compare by the
  value they denote, \<open>values_equal\<close> is equality of denotations, \<open>sort\<close> is a stable sort,
  \<open>min\<close> and \<open>max\<close> pick the first extreme element, \<open>unique\<close> keeps one element of each class,
  and \<open>split\<close> and \<open>join\<close> are inverse.
\<close>

section \<open>Exact comparison\<close>

lemma f64_val_neg [simp]: "f64_val (f64_neg f) = - f64_val f"
  by (cases f) auto

lemma f64_lt_finite: "is_finite a \<Longrightarrow> is_finite b \<Longrightarrow> f64_lt a b \<longleftrightarrow> f64_val a < f64_val b"
  by (simp add: f64_lt_def f64_partial_cmp_finite)

lemma f64_ge_finite: "is_finite a \<Longrightarrow> is_finite b \<Longrightarrow> f64_ge a b \<longleftrightarrow> f64_val b \<le> f64_val a"
  by (auto simp: f64_ge_def f64_partial_cmp_finite)

lemma f64_eq_finite: "is_finite a \<Longrightarrow> is_finite b \<Longrightarrow> f64_eq a b \<longleftrightarrow> f64_val a = f64_val b"
  by (simp add: f64_eq_def f64_partial_cmp_finite)

lemma exact_integer_Some: "number_wf n \<Longrightarrow> exact_integer n = Some i \<Longrightarrow> num_val n = of_int i"
  by (cases n) (auto simp: exact_integer_def f64_fract_zero_def split: if_splits)

lemma exact_integer_None:
  assumes "number_wf n" "exact_integer n = None"
  obtains f where "n = Float f" "is_finite f" "\<bar>num_val n\<bar> < 2 ^ 52 \<or> 2 ^ 127 \<le> \<bar>num_val n\<bar>"
proof (cases n)
  case (PosInt k)
  then show ?thesis using assms by (auto simp: exact_integer_def split: if_splits)
next
  case (NegInt i)
  then show ?thesis using assms by (simp add: exact_integer_def)
next
  case (Float f)
  then have f: "is_finite f" "f64_wf f" using assms(1) by simp_all
  then obtain s q where q: "f = Finite s q" "representable q" by (cases f) simp_all
  have "\<not> f64_fract_zero f \<or> 2 ^ 127 \<le> \<bar>f64_val f\<bar>"
    using assms(2) Float f by (auto simp: exact_integer_def I128_LIMIT_def f64_lt_finite f64_ge_finite split: if_splits)
  moreover have "\<bar>f64_val f\<bar> < 2 ^ 52" if "\<not> f64_fract_zero f"
  proof -
    have "q \<noteq> of_int \<lfloor>q\<rfloor>"
    proof
      assume "q = of_int \<lfloor>q\<rfloor>"
      then obtain z where "q = of_int z" by blast
      then show False using that q(1) by (simp add: f64_fract_zero_def)
    qed
    with q(2) have "q < 2 ^ 52" by (rule representable_fraction_small)
    then show ?thesis using q representable_nonneg [OF q(2)] by simp
  qed
  ultimately show ?thesis using that Float f by auto
qed

definition num_int :: "number \<Rightarrow> int" where
  "num_int n = (case n of PosInt k \<Rightarrow> int k | NegInt i \<Rightarrow> i | Float f \<Rightarrow> 0)"

lemma integer_number:
  assumes "number_wf n" "\<And>f. n \<noteq> Float f"
  shows "num_val n = of_int (num_int n)" "as_f64 n = Some (f64_of_rat (of_int (num_int n)))" "\<bar>num_int n\<bar> < 2 ^ 64"
  using assms by (cases n; simp add: num_int_def)+

lemma as_f64_finite:
  assumes "number_wf n"
  obtains f where "as_f64 n = Some f" "is_finite f"
  using assms integer_number [OF assms] f64_of_int_finite by (cases n) auto

text \<open>
  Against a double that is no exact integer, the conversion of the other number keeps the
  comparison.
\<close>

lemma compare_with_inexact:
  assumes wf: "number_wf l" "number_wf r" and r: "exact_integer r = None"
  shows "\<exists>a b. as_f64 l = Some a \<and> as_f64 r = Some b \<and> is_finite a \<and> is_finite b
    \<and> cmp (f64_val a) (f64_val b) = cmp (num_val l) (num_val r)"
proof -
  obtain g where g: "r = Float g" "is_finite g" "\<bar>num_val r\<bar> < 2 ^ 52 \<or> 2 ^ 127 \<le> \<bar>num_val r\<bar>"
    using exact_integer_None [OF wf(2) r] .
  show ?thesis
  proof (cases "\<exists>f. l = Float f")
    case True
    then show ?thesis using g wf by auto
  next
    case False
    then have l: "num_val l = of_int (num_int l)" "as_f64 l = Some (f64_of_rat (of_int (num_int l)))"
        "\<bar>num_int l\<bar> < 2 ^ 64"
      using integer_number [OF wf(1)] by simp_all
    have "cmp (f64_val (f64_of_rat (of_int (num_int l)))) (num_val r) = cmp (num_val l) (num_val r)"
      using cmp_f64_of_int [OF l(3) g(3)] l(1) by simp
    then show ?thesis using g l f64_of_int_finite [OF l(3)] by simp
  qed
qed

lemma compare_numbers_exact:
  assumes "number_wf l" "number_wf r"
  shows "compare_numbers l r = Some (cmp (num_val l) (num_val r))"
proof (cases "exact_integer l")
  case (Some i)
  show ?thesis
  proof (cases "exact_integer r")
    case None
    then show ?thesis using compare_with_inexact [OF assms None] Some
      by (auto simp: compare_numbers_def f64_partial_cmp_finite)
  next
    fix j
    assume "exact_integer r = Some j"
    then show ?thesis using Some exact_integer_Some assms
      by (auto simp: compare_numbers_def cmp_def)
  qed
next
  case None
  obtain a b where "as_f64 r = Some a" "as_f64 l = Some b" "is_finite a" "is_finite b"
      and c: "cmp (f64_val a) (f64_val b) = cmp (num_val r) (num_val l)"
    using compare_with_inexact [OF assms(2,1) None] by blast
  moreover have "cmp (f64_val b) (f64_val a) = cmp (num_val l) (num_val r)"
    using c by (metis cmp_swap)
  ultimately show ?thesis using None by (simp add: compare_numbers_def f64_partial_cmp_finite)
qed

lemma truthy_number: "number_wf n \<Longrightarrow> truthy (Number n) \<longleftrightarrow> num_val n \<noteq> 0"
proof (cases "\<exists>f. n = Float f")
  case False
  assume "number_wf n"
  note l = integer_number [OF this] and False
  then have "cmp (f64_val (f64_of_rat (of_int (num_int n)))) 0 = cmp (num_val n) 0"
    using cmp_f64_of_int [of "num_int n" 0] by simp
  then have "f64_val (f64_of_rat (of_int (num_int n))) = 0 \<longleftrightarrow> num_val n = 0"
    by (metis cmp_simps(2))
  then show ?thesis using l False f64_of_int_finite by (simp add: f64_eq_finite)
qed (auto simp: f64_eq_finite)

section \<open>Equality is equality of what the values denote\<close>

datatype jval =
    VNull
  | VBool bool
  | VNum rat
  | VStr string
  | VArr "jval list"
  | VObj "(string \<times> jval) list"

fun denote :: "json \<Rightarrow> jval" where
  "denote Null = VNull"
| "denote (Bool b) = VBool b"
| "denote (Number n) = VNum (num_val n)"
| "denote (String s) = VStr s"
| "denote (Array vs) = VArr (map denote vs)"
| "denote (Object m) = VObj (map (\<lambda>(k, v). (k, denote v)) m)"

lemma bt_same_keys:
  assumes "bt_wf l" "bt_wf r" "length l = length r" "\<forall>(k, v)\<in>set l. bt_get r k \<noteq> None"
  shows "map fst l = map fst r"
proof -
  have "set (map fst l) \<subseteq> set (map fst r)"
    using assms(4) by (force simp: map_of_eq_None_iff)
  moreover have d: "distinct (map fst l)" "distinct (map fst r)"
    using assms(1,2) by (simp_all add: bt_wf_def strict_sorted_iff)
  moreover have "card (set (map fst l)) = card (set (map fst r))"
    using distinct_card [OF d(1)] distinct_card [OF d(2)] assms(3) by simp
  ultimately have "set (map fst l) = set (map fst r)" by (intro card_subset_eq) simp_all
  then show ?thesis
    using assms(1,2) by (intro strict_sorted_equal) (simp_all add: bt_wf_def)
qed

lemma object_equal_iff:
  assumes "bt_wf l" "bt_wf r"
  shows "length l = length r \<and>
      (\<forall>(k, v)\<in>set l. case bt_get r k of None \<Rightarrow> False | Some w \<Rightarrow> denote v = denote w)
    \<longleftrightarrow> denote (Object l) = denote (Object r)" (is "?L \<longleftrightarrow> ?R")
proof
  assume ?L
  then have keys: "map fst l = map fst r"
    by (intro bt_same_keys [OF assms]) (auto split: option.splits)
  have "distinct (map fst r)" using assms(2) by (simp add: bt_wf_def strict_sorted_iff)
  have "denote (snd (l ! i)) = denote (snd (r ! i))" if "i < length l" for i
  proof -
    have i: "i < length r" "fst (l ! i) = fst (r ! i)"
      using that keys map_eq_imp_length_eq [OF keys] by (simp_all add: list_eq_iff_nth_eq)
    then have "bt_get r (fst (l ! i)) = Some (snd (r ! i))"
      using \<open>distinct (map fst r)\<close> by (metis map_of_eq_Some_iff nth_mem prod.collapse)
    then show ?thesis using \<open>?L\<close> nth_mem [OF that] by (cases "l ! i") auto
  qed
  then show ?R using keys
    by (auto simp: list_eq_iff_nth_eq split_beta)
next
  assume ?R
  then have m: "map (\<lambda>(k, v). (k, denote v)) l = map (\<lambda>(k, v). (k, denote v)) r" by simp
  have d: "distinct (map fst r)" using assms(2) by (simp add: bt_wf_def strict_sorted_iff)
  have "case bt_get r k of None \<Rightarrow> False | Some w \<Rightarrow> denote v = denote w" if "(k, v) \<in> set l" for k v
  proof -
    have "(k, denote v) \<in> set (map (\<lambda>(k, v). (k, denote v)) r)"
      using that unfolding m [symmetric] by force
    then obtain w where "(k, w) \<in> set r" "denote w = denote v" by auto
    then show ?thesis using d by (simp add: map_of_eq_Some_iff)
  qed
  then show ?L using map_eq_imp_length_eq [OF m] by blast
qed

lemma values_equal_denote:
  "json_wf a \<Longrightarrow> json_wf b \<Longrightarrow> values_equal a b \<longleftrightarrow> denote a = denote b"
proof (induction a b rule: values_equal.induct)
  case (1 a b)
  show ?case
  proof (cases "(\<exists>l r. a = Array l \<and> b = Array r) \<or> (\<exists>l r. a = Object l \<and> b = Object r)")
    case False
    then show ?thesis using 1(3,4)
      by (cases a; cases b) (simp_all add: values_equal.simps compare_numbers_exact)
  next
    case True
    then show ?thesis
    proof (elim disjE exE conjE)
      fix l r
      assume ab: "a = Array l" "b = Array r"
      have "values_equal x y \<longleftrightarrow> denote x = denote y" if "(x, y) \<in> set (zip l r)" for x y
        using 1(1) [OF _ ab that] 1(3,4) ab that
        by (auto simp: list_all_iff dest: set_zip_leftD set_zip_rightD)
      then have "list_all (\<lambda>(x, y). values_equal x y) (zip l r)
          \<longleftrightarrow> list_all (\<lambda>(x, y). denote x = denote y) (zip l r)"
        by (auto simp: list_all_iff)
      moreover have "length l = length r \<and> list_all (\<lambda>(x, y). denote x = denote y) (zip l r)
          \<longleftrightarrow> map denote l = map denote r"
        by (induction l r rule: list_induct2') auto
      ultimately show ?thesis by (simp add: ab values_equal.simps [of "Array l"])
    next
      fix l r
      assume ab: "a = Object l" "b = Object r"
      have "values_equal v w \<longleftrightarrow> denote v = denote w"
        if "(k, v) \<in> set l" "bt_get r k = Some w" for k v w
        using 1(2) [OF _ ab that(1) _ that(2)] 1(3,4) ab that map_of_SomeD [OF that(2)]
        by (auto simp: list_all_iff)
      then have "values_equal a b \<longleftrightarrow> length l = length r \<and>
          (\<forall>(k, v)\<in>set l. case bt_get r k of None \<Rightarrow> False | Some w \<Rightarrow> denote v = denote w)"
        by (auto simp: ab values_equal.simps [of "Object l"] list_all_iff split: option.splits)
      then show ?thesis using object_equal_iff [of l r] 1(3,4) ab by simp
    qed
  qed
qed

section \<open>Ordering functions\<close>

abbreviation at_most :: "ordering option \<Rightarrow> bool" where
  "at_most r \<equiv> r = Some Less \<or> r = Some Equal"

abbreviation or_equal :: "ordering option \<Rightarrow> ordering" where
  "or_equal r \<equiv> (case r of None \<Rightarrow> Equal | Some order \<Rightarrow> order)"

definition comparable :: "('a \<Rightarrow> 'a \<Rightarrow> ordering option) \<Rightarrow> 'a list \<Rightarrow> bool" where
  "comparable compare xs \<longleftrightarrow> (\<forall>a\<in>set xs. \<forall>b\<in>set xs. compare a b \<noteq> None)"

lemma set_stable_insert: "set (stable_insert f x ys) = insert x (set ys)"
  by (induction ys) auto

lemma mset_sort_by: "mset (sort_by compare xs) = mset xs"
proof -
  have "mset (stable_insert compare x ys) = add_mset x (mset ys)" for x ys
    by (induction ys) auto
  then show ?thesis unfolding sort_by_def by (induction xs) auto
qed

lemma set_sort_by: "set (sort_by compare xs) = set xs"
  using mset_sort_by [of compare xs] by (metis set_mset_mset)

text \<open>
  The contract of a partial comparison: where it is defined it is a total preorder, and being
  comparable is transitive. \<open>sort\<close>, \<open>min\<close> and \<open>max\<close> rely on nothing else.
\<close>

locale partial_comparison =
  fixes compare :: "'a \<Rightarrow> 'a \<Rightarrow> ordering option" and ok :: "'a \<Rightarrow> bool"
  assumes swap: "ok a \<Longrightarrow> ok b \<Longrightarrow> compare b a = map_option ordering_reverse (compare a b)"
    and defined_trans: "ok a \<Longrightarrow> ok b \<Longrightarrow> ok c \<Longrightarrow>
      compare a b \<noteq> None \<Longrightarrow> compare b c \<noteq> None \<Longrightarrow> compare a c \<noteq> None"
    and at_most_trans: "ok a \<Longrightarrow> ok b \<Longrightarrow> ok c \<Longrightarrow>
      at_most (compare a b) \<Longrightarrow> at_most (compare b c) \<Longrightarrow> at_most (compare a c)"
begin

lemma defined_sym: "ok a \<Longrightarrow> ok b \<Longrightarrow> compare a b \<noteq> None \<Longrightarrow> compare b a \<noteq> None"
  using swap [of a b] by simp

lemma defined_refl: "ok a \<Longrightarrow> ok b \<Longrightarrow> compare a b \<noteq> None \<Longrightarrow> compare a a \<noteq> None"
  using defined_trans [of a b a] defined_sym by blast

lemma not_less_at_most:
  "ok a \<Longrightarrow> ok b \<Longrightarrow> compare a b \<noteq> None \<Longrightarrow> compare b a \<noteq> Some Less \<Longrightarrow> at_most (compare a b)"
  using swap [of a b] by (cases "compare a b"; cases "the (compare a b)") auto

lemma equal_trans:
  assumes "ok a" "ok b" "ok c" "compare a b = Some Equal" "compare a c = Some Equal"
  shows "compare b c = Some Equal"
proof -
  have "compare b a = Some Equal" "compare c a = Some Equal" using assms swap [of a b] swap [of a c] by simp_all
  then have "at_most (compare b c)" "at_most (compare c b)"
    using assms at_most_trans [of b a c] at_most_trans [of c a b] by simp_all
  then show ?thesis using assms swap [of b c] by auto
qed

lemma comparable_Cons:
  assumes "ok x" "\<forall>y\<in>set (y # ys). ok y" "comparable compare (y # ys)" "compare x y \<noteq> None"
  shows "comparable compare (x # y # ys)"
proof -
  have one: "compare x z \<noteq> None \<and> compare z x \<noteq> None" if "z \<in> set (y # ys)" for z
  proof -
    have "compare y z \<noteq> None" using assms(3) that list.set_intros(1) [of y ys] unfolding comparable_def by blast
    moreover have "ok y" "ok z" using assms(2) that by auto
    ultimately have "compare x z \<noteq> None" using assms(1,4) by (intro defined_trans [of x y z])
    then show ?thesis using assms(1) \<open>ok z\<close> defined_sym by blast
  qed
  have "compare x x \<noteq> None" using assms defined_refl [of x y] by simp
  then show ?thesis
    using one assms(3) unfolding comparable_def list.set(2) [of x] by blast
qed

lemma sorted_stable_insert:
  "\<forall>y\<in>set (x # ys). ok y \<Longrightarrow> comparable compare (x # ys) \<Longrightarrow> sorted_wrt (\<lambda>a b. at_most (compare a b)) ys \<Longrightarrow>
   sorted_wrt (\<lambda>a b. at_most (compare a b)) (stable_insert (\<lambda>a b. or_equal (compare a b)) x ys)"
proof (induction ys)
  case (Cons y ys)
  have xy: "compare x y \<noteq> None" "compare y x \<noteq> None" using Cons.prems(2) by (auto simp: comparable_def)
  show ?case
  proof (cases "compare y x = Some Less")
    case True
    have "comparable compare (x # ys)" using Cons.prems(2) by (auto simp: comparable_def)
    then show ?thesis using True Cons by (auto simp: set_stable_insert)
  next
    case False
    then have "at_most (compare x y)" using Cons.prems(1) xy by (intro not_less_at_most) auto
    moreover have "at_most (compare x z)" if "z \<in> set ys" for z
      using Cons.prems that calculation by (intro at_most_trans [of x y z]) auto
    moreover have "or_equal (compare y x) \<noteq> Less" using False xy(2) by (auto split: option.splits)
    ultimately show ?thesis using Cons.prems by auto
  qed
qed simp

lemma sort_by_sorted:
  "\<forall>x\<in>set xs. ok x \<Longrightarrow> comparable compare xs \<Longrightarrow>
   sorted_wrt (\<lambda>a b. at_most (compare a b)) (sort_by (\<lambda>a b. or_equal (compare a b)) xs)"
proof (induction xs)
  case (Cons x xs)
  let ?s = "sort_by (\<lambda>a b. or_equal (compare a b)) xs"
  have set: "set ?s = set xs"
    by (rule set_sort_by)
  have "comparable compare xs" "comparable compare (x # ?s)"
    using Cons.prems(2) by (auto simp: comparable_def set)
  moreover have "\<forall>y\<in>set (x # ?s). ok y" using Cons.prems(1) by (auto simp: set)
  ultimately show ?case
    using Cons sorted_stable_insert [of x ?s] by (simp add: sort_by_def)
qed (simp add: sort_by_def)

lemma sort_by_stable:
  assumes "ok a"
  shows "\<forall>x\<in>set xs. ok x \<Longrightarrow>
    filter (\<lambda>x. compare a x = Some Equal) (sort_by (\<lambda>a b. or_equal (compare a b)) xs) =
    filter (\<lambda>x. compare a x = Some Equal) xs"
proof (induction xs)
  case (Cons x xs)
  have ins: "filter (\<lambda>x. compare a x = Some Equal) (stable_insert (\<lambda>a b. or_equal (compare a b)) x ys) =
      filter (\<lambda>x. compare a x = Some Equal) (x # ys)" if "\<forall>y\<in>set ys. ok y" for ys
    using that
  proof (induction ys)
    case (Cons y ys)
    have "\<not> (compare a y = Some Equal \<and> compare a x = Some Equal)" if "or_equal (compare y x) = Less"
      using that equal_trans [of a y x] assms Cons.prems \<open>\<forall>x\<in>set (x # xs). ok x\<close> by auto
    then show ?case using Cons by auto
  qed simp
  have "set (sort_by (\<lambda>a b. or_equal (compare a b)) xs) = set xs"
    by (rule set_sort_by)
  then show ?case using Cons ins [of "sort_by (\<lambda>a b. or_equal (compare a b)) xs"] by (auto simp: sort_by_def)
qed (simp add: sort_by_def)

end

fun compare_denoted :: "jval \<Rightarrow> jval \<Rightarrow> ordering option" where
  "compare_denoted (VNum x) (VNum y) = Some (cmp x y)"
| "compare_denoted (VStr x) (VStr y) = Some (cmp x y)"
| "compare_denoted (VBool x) (VBool y) = Some (cmp x y)"
| "compare_denoted _ _ = None"

lemma compare_json_scalar_denote:
  "json_wf a \<Longrightarrow> json_wf b \<Longrightarrow> compare_json_scalar a b = compare_denoted (denote a) (denote b)"
  by (cases a; cases b) (simp_all add: compare_numbers_exact)

lemma compare_denoted_swap: "compare_denoted b a = map_option ordering_reverse (compare_denoted a b)"
  by (cases a; cases b) (simp_all add: cmp_swap [symmetric])

lemma compare_denoted_trans:
  "compare_denoted a b \<noteq> None \<Longrightarrow> compare_denoted b c \<noteq> None \<Longrightarrow> compare_denoted a c \<noteq> None"
  by (cases a; cases b; cases c) simp_all

lemma compare_denoted_at_most:
  "at_most (compare_denoted a b) \<Longrightarrow> at_most (compare_denoted b c) \<Longrightarrow> at_most (compare_denoted a c)"
  by (cases a; cases b; cases c) auto

interpretation scalars: partial_comparison compare_json_scalar json_wf
proof
  fix a b c
  assume "json_wf a" "json_wf b"
  note ab = compare_json_scalar_denote [OF this] compare_json_scalar_denote [OF this(2,1)]
  show "compare_json_scalar b a = map_option ordering_reverse (compare_json_scalar a b)"
    unfolding ab by (rule compare_denoted_swap)
  assume "json_wf c"
  note bc = compare_json_scalar_denote [OF \<open>json_wf b\<close> this] compare_json_scalar_denote [OF \<open>json_wf a\<close> this]
  show "compare_json_scalar a c \<noteq> None"
    if "compare_json_scalar a b \<noteq> None" "compare_json_scalar b c \<noteq> None"
    using that unfolding ab bc by (rule compare_denoted_trans)
  show "at_most (compare_json_scalar a c)"
    if "at_most (compare_json_scalar a b)" "at_most (compare_json_scalar b c)"
    using that unfolding ab bc by (rule compare_denoted_at_most)
qed

lemma sort_checked_comparable:
  "list_all json_wf vs \<Longrightarrow> json_wf v \<Longrightarrow> is_orderable_scalar v \<Longrightarrow>
   sort_checked (Some v) vs \<longleftrightarrow> comparable compare_json_scalar (v # vs)"
proof (induction vs arbitrary: v)
  case Nil
  then show ?case by (simp add: comparable_def is_orderable_scalar_def)
next
  case (Cons w vs)
  have tail: "sort_checked (Some w) vs \<longleftrightarrow> comparable compare_json_scalar (w # vs)" if "is_orderable_scalar w"
    using Cons.IH [of w] Cons.prems that by simp
  show ?case
  proof
    assume "sort_checked (Some v) (w # vs)"
    then show "comparable compare_json_scalar (v # w # vs)"
      using tail Cons.prems by (intro scalars.comparable_Cons) (auto simp: list_all_iff)
  next
    assume c: "comparable compare_json_scalar (v # w # vs)"
    then have "is_orderable_scalar w" "compare_json_scalar v w \<noteq> None" "comparable compare_json_scalar (w # vs)"
      by (simp_all add: comparable_def is_orderable_scalar_def)
    then show "sort_checked (Some v) (w # vs)" using tail by simp
  qed
qed

lemma sort_values_cases:
  assumes "list_all json_wf items"
  shows "sort_values items =
    (if comparable compare_json_scalar items
     then Inr (sort_by (\<lambda>l r. or_equal (compare_json_scalar l r)) items)
     else Inl (unordered_array_error ''sort''))"
proof (cases items)
  case (Cons v vs)
  have "is_orderable_scalar v" if "comparable compare_json_scalar items"
    using that Cons by (simp add: comparable_def is_orderable_scalar_def)
  then show ?thesis using sort_checked_comparable [of vs v] assms Cons by (auto simp: sort_values_def)
qed (simp add: sort_values_def comparable_def)

lemma compare_denoted_beats:
  "w \<noteq> Equal \<Longrightarrow> compare_denoted v c = Some w \<Longrightarrow> compare_denoted i c = Some r \<Longrightarrow> r \<noteq> w \<Longrightarrow>
   compare_denoted v i = Some w"
  by (cases w; cases r; cases v; cases c; cases i) auto

lemma compare_denoted_strict:
  "w \<noteq> Equal \<Longrightarrow> compare_denoted a b = Some w \<Longrightarrow> compare_denoted b c = Some w \<Longrightarrow> compare_denoted a c = Some w"
  by (cases w; cases a; cases b; cases c) auto

text \<open>The first element that no other element beats.\<close>

definition first_extreme :: "ordering \<Rightarrow> json list \<Rightarrow> json \<Rightarrow> bool" where
  "first_extreme wanted items v \<longleftrightarrow> (\<exists>before after. items = before @ v # after
     \<and> (\<forall>x\<in>set before. compare_json_scalar v x = Some wanted)
     \<and> (\<forall>x\<in>set after. compare_json_scalar x v \<noteq> Some wanted))"

lemma first_extreme_keep:
  assumes "first_extreme w (c # items) v" "list_all json_wf (c # i # items)" "w \<noteq> Equal"
    "compare_json_scalar i c = Some r" "r \<noteq> w"
  shows "first_extreme w (c # i # items) v"
proof -
  obtain before after where b: "c # items = before @ v # after"
      "\<forall>x\<in>set before. compare_json_scalar v x = Some w" "\<forall>x\<in>set after. compare_json_scalar x v \<noteq> Some w"
    using assms(1) unfolding first_extreme_def by blast
  show ?thesis
  proof (cases before)
    case Nil
    then show ?thesis using b assms unfolding first_extreme_def
      by (intro exI [of _ "[]"] exI [of _ "i # after"]) auto
  next
    case (Cons d before')
    then have "json_wf v" "compare_json_scalar v c = Some w" using b assms(2) by (auto simp: list_all_iff)
    then have "compare_json_scalar v i = Some w"
      using assms(2-5) compare_denoted_beats [of w "denote v" "denote c" "denote i" r]
      by (simp add: compare_json_scalar_denote)
    then show ?thesis using b Cons unfolding first_extreme_def
      by - (rule exI [of _ "c # i # before'"], rule exI [of _ after], auto)
  qed
qed

lemma first_extreme_replace:
  assumes "first_extreme w (i # items) v" "list_all json_wf (c # i # items)" "w \<noteq> Equal"
    "compare_json_scalar i c = Some w"
  shows "first_extreme w (c # i # items) v"
proof -
  obtain before after where b: "i # items = before @ v # after"
      "\<forall>x\<in>set before. compare_json_scalar v x = Some w" "\<forall>x\<in>set after. compare_json_scalar x v \<noteq> Some w"
    using assms(1) unfolding first_extreme_def by blast
  have "v \<in> set (i # items)" using b(1) by simp
  then have wf: "json_wf v" "json_wf i" "json_wf c" using assms(2) by (auto simp: list_all_iff)
  have "compare_json_scalar v c = Some w"
  proof (cases before)
    case (Cons d before')
    then have "compare_json_scalar v i = Some w" using b by auto
    then show ?thesis
      using wf assms(3,4) compare_denoted_strict [of w "denote v" "denote i" "denote c"]
      by (simp add: compare_json_scalar_denote)
  qed (use b assms(4) in simp)
  then show ?thesis using b unfolding first_extreme_def
    by - (rule exI [of _ "c # before"], rule exI [of _ after], auto)
qed

lemma extreme_loop_cases:
  "list_all json_wf (c # items) \<Longrightarrow> w \<noteq> Equal \<Longrightarrow> is_orderable_scalar c \<Longrightarrow>
   (if comparable compare_json_scalar (c # items)
    then \<exists>v. extreme_loop name w (Some c) items = Inr v \<and> first_extreme w (c # items) v
    else extreme_loop name w (Some c) items = Inl (unordered_array_error name))"
proof (induction items arbitrary: c)
  case Nil
  have "first_extreme w [c] c"
    unfolding first_extreme_def by - (rule exI [of _ "[]"], rule exI [of _ "[]"], simp)
  then show ?case using Nil by (auto simp: comparable_def is_orderable_scalar_def)
next
  case (Cons i items)
  have wf: "json_wf c" "json_wf i" "list_all json_wf items" using Cons.prems(1) by simp_all
  show ?case
  proof (cases "is_orderable_scalar i \<and> compare_json_scalar i c \<noteq> None")
    case False
    then have "\<not> comparable compare_json_scalar (c # i # items)"
      by (auto simp: comparable_def is_orderable_scalar_def)
    then show ?thesis using False by auto
  next
    case True
    then obtain r where r: "compare_json_scalar i c = Some r" by blast
    let ?d = "if r = w then i else c"
    have d: "json_wf ?d" "is_orderable_scalar ?d" using wf True Cons.prems by auto
    have c: "comparable compare_json_scalar (c # i # items) \<longleftrightarrow> comparable compare_json_scalar (?d # items)"
    proof
      assume *: "comparable compare_json_scalar (?d # items)"
      show "comparable compare_json_scalar (c # i # items)"
      proof (cases "r = w")
        case True
        then show ?thesis using * wf r scalars.defined_sym [of i c]
          by (intro scalars.comparable_Cons) (auto simp: list_all_iff)
      next
        case False
        then have "comparable compare_json_scalar (i # c # items)"
          using * wf r by (intro scalars.comparable_Cons) (auto simp: list_all_iff)
        then show ?thesis by (auto simp: comparable_def)
      qed
    qed (auto simp: comparable_def)
    have e: "extreme_loop name w (Some c) (i # items) = extreme_loop name w (Some ?d) items"
      using True r by simp
    have f: "first_extreme w (c # i # items) v" if "first_extreme w (?d # items) v" for v
      using that Cons.prems r first_extreme_keep [of w c items v i r] first_extreme_replace [of w i items v c]
      by (cases "r = w") auto
    show ?thesis
      unfolding c e using Cons.IH [of ?d] d wf Cons.prems(2) f by (auto split: if_splits)
  qed
qed

lemma extreme_cases:
  assumes "list_all json_wf items" "items \<noteq> []" "w \<noteq> Equal"
  shows "if comparable compare_json_scalar items
    then \<exists>v. extreme items name w = Inr v \<and> first_extreme w items v
    else extreme items name w = Inl (unordered_array_error name)"
proof (cases items)
  case (Cons c items')
  show ?thesis
  proof (cases "is_orderable_scalar c")
    case True
    then show ?thesis using extreme_loop_cases [of c items' w name] assms Cons by (simp add: extreme_def)
  next
    case False
    then show ?thesis using Cons by (simp add: extreme_def comparable_def is_orderable_scalar_def)
  qed
qed (use assms in simp)

lemma unique_loop_spec:
  assumes "list_all json_wf (seen @ items)" "distinct (map denote seen)"
  shows "distinct (map denote (unique_loop seen items))
    \<and> set (map denote (unique_loop seen items)) = set (map denote (seen @ items))
    \<and> subseq (unique_loop seen items) (seen @ items)"
  using assms
proof (induction seen items rule: unique_loop.induct)
  case (2 seen item items)
  have seen: "list_ex (\<lambda>s. values_equal s item) seen \<longleftrightarrow> denote item \<in> set (map denote seen)"
  proof -
    have "values_equal s item \<longleftrightarrow> denote item = denote s" if "s \<in> set seen" for s
      using 2(2) that by (auto simp: list_all_iff values_equal_denote)
    then show ?thesis by (auto simp: list_ex_iff)
  qed
  show ?case
  proof (cases "denote item \<in> set (map denote seen)")
    case True
    have "subseq (seen @ items) (seen @ item # items)"
      by (induction seen) auto
    then show ?thesis using 2 True seen by (auto intro: subseq_order.dual_order.trans)
  next
    case False
    then show ?thesis using 2 seen by simp
  qed
qed simp

section \<open>Splitting and joining\<close>

lemma split_sep_not_Nil [simp]: "split_sep sep s \<noteq> []"
  by (cases s) (auto split: option.splits list.splits)

lemma split_sep_hd_prefix: "sep \<noteq> [] \<Longrightarrow> prefix (hd (split_sep sep s)) s"
  by (induction sep s rule: split_sep.induct) (auto split: option.splits list.splits)

lemma join_split_sep: "sep \<noteq> [] \<Longrightarrow> join_with sep (split_sep sep s) = s"
proof (induction sep s rule: split_sep.induct)
  case (2 sep c cs)
  show ?case
  proof (cases "strip_prefix sep (c # cs)")
    case None
    obtain p ps where ps: "split_sep sep cs = p # ps" by (cases "split_sep sep cs") simp_all
    then have "join_with sep (p # ps) = cs" using 2 None by simp
    then show ?thesis using None ps by (cases ps) simp_all
  next
    case (Some rest)
    obtain p ps where "split_sep sep rest = p # ps" by (cases "split_sep sep rest") simp_all
    then have "join_with sep (split_sep sep (c # cs)) = sep @ rest"
      using 2(2) [OF Some 2(3) 2(3)] Some 2(3) by simp
    also have "sep @ rest = c # cs" using Some by (simp add: strip_prefix_Some_iff)
    finally show ?thesis .
  qed
qed simp

lemma split_sep_free: "sep \<noteq> [] \<Longrightarrow> p \<in> set (split_sep sep s) \<Longrightarrow> \<not> contains_str p sep"
proof (induction sep s arbitrary: p rule: split_sep.induct)
  case (1 sep)
  then show ?case by (simp add: contains_str_iff)
next
  case (2 sep c cs)
  show ?case
  proof (cases "strip_prefix sep (c # cs)")
    case (Some rest)
    then show ?thesis using 2 by (auto simp: contains_str_iff)
  next
    case None
    obtain q qs where qs: "split_sep sep cs = q # qs" by (cases "split_sep sep cs") simp_all
    have "prefix q cs" using split_sep_hd_prefix [of sep cs] 2(3) qs by simp
    moreover have "\<not> prefix sep (c # cs)"
      using None strip_prefix_Some_iff [of sep "c # cs"] by (auto simp: prefix_def)
    ultimately have "\<not> prefix sep (c # q)" by (meson Cons_prefix_Cons prefix_order.trans)
    moreover have "\<not> contains_str q sep" using 2(1) [OF None 2(3)] qs by simp
    ultimately have "\<not> contains_str (c # q) sep"
      by (auto simp: contains_str_iff prefix_def Cons_eq_append_conv)
    then show ?thesis using 2 None qs by auto
  qed
qed

lemma join_split_str: "join_with sep (split_str sep s) = s"
proof -
  have "join_with [] ps = concat ps" for ps :: "string list"
    by (induction "[] :: string" ps rule: join_with.induct) simp_all
  then show ?thesis by (simp add: split_str_def join_split_sep)
qed

section \<open>Properties\<close>

text \<open>C16: Two JSON numbers compare by the exact value they denote, whatever their representation:
  no two distinct integers are merged by a conversion to double, and an integer against a double
  compares exactly.\<close>

theorem number_comparison_exact:
  assumes "number_wf l" "number_wf r"
  shows "compare_numbers l r = Some (cmp (num_val l) (num_val r))"
  using assms by (rule compare_numbers_exact)

theorem number_comparison_exact_witness:
  "compare_numbers (PosInt 9007199254740993) (Float (Finite False (2 ^ 53))) = Some Greater"
proof -
  have "representable (2 ^ 53)" using representable_nat [of "2 ^ 53"] by simp
  then have "compare_numbers (PosInt 9007199254740993) (Float (Finite False (2 ^ 53))) =
      Some (cmp (num_val (PosInt 9007199254740993)) (num_val (Float (Finite False (2 ^ 53)))))"
    by (intro number_comparison_exact) simp_all
  then show ?thesis by simp
qed

text \<open>C25: The equality of \<open>==\<close>, \<open>contains\<close> and \<open>unique\<close> is equality of denoted values: same type, the
  same number, the same elements in order, the same entries under the same keys.\<close>

theorem equality_is_denotation:
  assumes "json_wf a" "json_wf b"
  shows "values_equal a b \<longleftrightarrow> denote a = denote b"
  using assms by (rule values_equal_denote)

theorem equality_is_denotation_witness:
  "values_equal (Object [(''k'', Array [Number (PosInt 3)])]) (Object [(''k'', Array [Number (Float (Finite False 3))])])"
proof -
  have "representable 3" using representable_nat [of 3] by simp
  then show ?thesis
    using equality_is_denotation [of "Object [(''k'', Array [Number (PosInt 3)])]"
        "Object [(''k'', Array [Number (Float (Finite False 3))])]"]
    by (simp add: bt_wf_def)
qed

text \<open>C27: \<open>sort\<close> accepts an array exactly when all its elements are pairwise comparable scalars; it
  then returns a permutation in ascending order in which equal elements keep their order, and
  otherwise the one error message.\<close>

theorem sort_is_stable_sort:
  assumes "list_all json_wf items"
  shows "if comparable compare_json_scalar items
    then \<exists>vs. sort_values items = Inr vs \<and> mset vs = mset items
      \<and> sorted_wrt (\<lambda>a b. at_most (compare_json_scalar a b)) vs
      \<and> (\<forall>a. json_wf a \<longrightarrow> filter (\<lambda>x. compare_json_scalar a x = Some Equal) vs
                        = filter (\<lambda>x. compare_json_scalar a x = Some Equal) items)
    else sort_values items = Inl (unordered_array_error ''sort'')"
  using assms sort_values_cases [OF assms] scalars.sort_by_sorted [of items] scalars.sort_by_stable [of _ items]
  by (auto simp: mset_sort_by list_all_iff)

theorem sort_is_stable_sort_witness:
  "sort_values [Bool True, Null] = Inl (unordered_array_error ''sort'')"
proof -
  have "\<not> comparable compare_json_scalar [Bool True, Null]" by (auto simp: comparable_def)
  then show ?thesis using sort_is_stable_sort [of "[Bool True, Null]"] by simp
qed

text \<open>C32: \<open>min\<close> and \<open>max\<close> refuse exactly the arrays \<open>sort\<close> refuses, and otherwise return the first
  element that no other element beats.\<close>

theorem extreme_is_first:
  assumes "list_all json_wf items" "items \<noteq> []"
  shows "if comparable compare_json_scalar items
    then (\<exists>v. extreme items ''min'' Less = Inr v \<and> first_extreme Less items v)
      \<and> (\<exists>v. extreme items ''max'' Greater = Inr v \<and> first_extreme Greater items v)
    else extreme items ''min'' Less = Inl (unordered_array_error ''min'')
      \<and> extreme items ''max'' Greater = Inl (unordered_array_error ''max'')"
  using extreme_cases [OF assms, of Less "''min''"] extreme_cases [OF assms, of Greater "''max''"]
  by (simp split: if_splits)

theorem extreme_is_first_witness:
  "extreme [Bool True, Null] ''max'' Greater = Inl (unordered_array_error ''max'')
   \<and> (\<exists>v. extreme [Bool True, Bool False] ''min'' Less = Inr v \<and> first_extreme Less [Bool True, Bool False] v)"
proof -
  have "\<not> comparable compare_json_scalar [Bool True, Null]"
    "comparable compare_json_scalar [Bool True, Bool False]" by (auto simp: comparable_def)
  then show ?thesis
    using extreme_is_first [of "[Bool True, Null]"] extreme_is_first [of "[Bool True, Bool False]"] by simp
qed

text \<open>C38: \<open>unique\<close> keeps a subsequence of the array with one element of each class of equal values,
  and \<open>join\<close> undoes \<open>split\<close> for every separator, no part of a split containing a nonempty
  separator.\<close>

theorem unique_and_split:
  assumes "list_all json_wf items"
  shows "distinct (map denote (unique_loop [] items))
    \<and> set (map denote (unique_loop [] items)) = set (map denote items)
    \<and> subseq (unique_loop [] items) items
    \<and> join_with sep (split_str sep s) = s
    \<and> (sep \<noteq> [] \<longrightarrow> (\<forall>p\<in>set (split_str sep s). \<not> contains_str p sep))"
proof -
  have "join_with sep (split_str sep s) = s" by (rule join_split_str)
  moreover have "\<not> contains_str p sep" if "sep \<noteq> []" "p \<in> set (split_str sep s)" for p
    using that split_sep_free [of sep p s] by (simp add: split_str_def)
  ultimately show ?thesis using unique_loop_spec [of "[]" items] assms by simp
qed

theorem unique_and_split_witness:
  "distinct (map denote (unique_loop [] [Null, Null])) \<and> join_with '', '' (split_str '', '' ''a, b'') = ''a, b''"
  using unique_and_split [of "[Null, Null]" "'', ''" "''a, b''"] by simp

end
