(* ===== verification/ExprValues.thy ===== *)
theory ExprValues
  imports ExprOrder
begin

text \<open>
  Every operator and function of the expression language returns a JSON value: numbers are
  finite doubles or in range, and objects stay ordered.
\<close>

section \<open>Results are JSON values\<close>

lemma number_value_wf: "f64_wf f \<Longrightarrow> number_value f = Inr v \<Longrightarrow> json_wf v"
  by (auto simp: number_value_def number_from_f64_def split: if_splits)

lemma as_number_wf: "json_wf v \<Longrightarrow> as_number v operator = Inr f \<Longrightarrow> f64_wf f"
proof -
  have "f64_wf f" if "json_wf (Number n)" "as_f64 n = Some f" for n
    using that by (cases n) (auto simp: f64_of_rat_wf)
  then show "json_wf v \<Longrightarrow> as_number v operator = Inr f \<Longrightarrow> f64_wf f"
    by (cases v) (auto simp: as_number_def result_simps)
qed

lemma evaluate_binary_Bool:
  "operator \<in> {''||'', ''&&'', ''=='', ''!='', ''>'', ''<'', ''>='', ''<=''} \<Longrightarrow>
   evaluate_binary operator l r = Inr v \<Longrightarrow> \<exists>b. v = Bool b"
  by (elim insertE emptyE; simp only:; simp add: evaluate_binary_def and_then_Inr_iff; blast)

lemma evaluate_binary_arithmetic:
  assumes "operator \<notin> {''||'', ''&&'', ''=='', ''!='', ''>'', ''<'', ''>='', ''<=''}"
    "evaluate_binary operator l r = Inr v"
  obtains a b x where "as_number l operator = Inr a" "as_number r operator = Inr b"
    "evaluate_arithmetic operator a b = Inr x" "number_value x = Inr v"
  using assms unfolding evaluate_binary_def insert_iff empty_iff de_Morgan_disj
  by (elim conjE, simp only: if_False simp_thms and_then_Inr_iff sum.distinct split: if_split_asm)
     (elim exE conjE, assumption)

lemma evaluate_binary_wf:
  assumes "json_wf l" "json_wf r" "evaluate_binary operator l r = Inr v"
  shows "json_wf v"
proof (cases "operator \<in> {''||'', ''&&'', ''=='', ''!='', ''>'', ''<'', ''>='', ''<=''}")
  case True
  show ?thesis using evaluate_binary_Bool [OF True assms(3)] by auto
next
  case False
  obtain a b x where *: "as_number l operator = Inr a" "as_number r operator = Inr b"
      "evaluate_arithmetic operator a b = Inr x" "number_value x = Inr v"
    using evaluate_binary_arithmetic [OF False assms(3)] .
  have "f64_wf a" "f64_wf b" using as_number_wf assms(1,2) *(1,2) by auto
  then have "f64_wf x" using *(3) f64_arith_wf [of a b]
    by (simp add: evaluate_arithmetic_def split: if_split_asm)
  then show ?thesis using *(4) by (rule number_value_wf)
qed

lemma sum_loop_wf: "f64_wf acc \<Longrightarrow> list_all json_wf items \<Longrightarrow> sum_loop acc items = Inr f \<Longrightarrow> f64_wf f"
  by (induction acc items rule: sum_loop.induct)
     (auto simp: and_then_Inr_iff intro: f64_arith_wf as_number_wf)

lemma extreme_loop_member:
  "extreme_loop name w sel items = Inr v \<Longrightarrow> v \<in> set items \<or> sel = Some v \<or> sel = None \<and> v = Null"
proof (induction items arbitrary: sel)
  case (Cons i items)
  then show ?case by (auto split: if_splits option.splits)
qed (simp split: option.splits)

lemma list_all_flatten: "list_all json_wf items \<Longrightarrow> list_all json_wf (flatten items)"
  unfolding flatten_def by (induction items) (auto split: json.splits)

lemma with_wf:
  "with_string e v f = Inr r \<Longrightarrow> (\<And>s. json_wf (f s)) \<Longrightarrow> json_wf r"
  "with_strings e v w g = Inr r \<Longrightarrow> (\<And>s t. json_wf (g s t)) \<Longrightarrow> json_wf r"
  "json_wf v \<Longrightarrow> with_array e v h = Inr r \<Longrightarrow>
     (\<And>vs. list_all json_wf vs \<Longrightarrow> h vs = Inr r \<Longrightarrow> json_wf r) \<Longrightarrow> json_wf r"
  "json_wf v \<Longrightarrow> with_object e v k = Inr r \<Longrightarrow>
     (\<And>m. bt_wf m \<Longrightarrow> list_all (\<lambda>(k, v). json_wf v) m \<Longrightarrow> json_wf (k m)) \<Longrightarrow> json_wf r"
  by (cases v; auto simp: with_strings_def split: json.splits)+

lemma unique_loop_set: "set (unique_loop seen items) \<subseteq> set seen \<union> set items"
  by (induction seen items rule: unique_loop.induct) auto

lemma sort_values_set: "sort_values items = Inr vs \<Longrightarrow> set vs = set items"
  by (auto simp: sort_values_def set_sort_by split: if_splits)

lemma array_function_wf:
  assumes "list_all json_wf items"
  shows "json_wf (case items of [] \<Rightarrow> Null | i # _ \<Rightarrow> i)"
    "json_wf (if items = [] then Null else last items)"
    "json_wf (Array (rev items))" "json_wf (Array (flatten items))" "json_wf (Array (unique_loop [] items))"
    "sort_values items = Inr vs \<Longrightarrow> json_wf (Array vs)"
    "sum_loop f64_zero items = Inr f \<Longrightarrow> number_value f = Inr v \<Longrightarrow> json_wf v"
    "extreme items name w = Inr v \<Longrightarrow> json_wf v"
proof -
  show "json_wf (Array (unique_loop [] items))"
    using assms unique_loop_set [of "[]" items] by (auto simp: list_all_iff)
  show "json_wf (Array vs)" if "sort_values items = Inr vs"
    using assms sort_values_set [OF that] by (simp add: list_all_iff)
  show "json_wf v" if "sum_loop f64_zero items = Inr f" "number_value f = Inr v"
    using sum_loop_wf [OF _ assms that(1)] that(2) number_value_wf by simp
  show "json_wf v" if "extreme items name w = Inr v"
    using extreme_loop_member [OF that [unfolded extreme_def]] assms by (auto simp: list_all_iff)
qed (use assms list_all_flatten in \<open>auto simp: list_all_iff split: list.splits\<close>)

lemma join_values_wf: "join_values v sep = Inr r \<Longrightarrow> json_wf r"
  by (auto simp: join_values_def and_then_Inr_iff split: json.splits)

definition returns_json :: "(json list \<Rightarrow> string + json) \<Rightarrow> bool" where
  "returns_json f \<longleftrightarrow> (\<forall>vs r. list_all json_wf vs \<longrightarrow> f vs = Inr r \<longrightarrow> json_wf r)"

lemma returns_json_unary:
  "(\<And>v r. json_wf v \<Longrightarrow> f v = Inr r \<Longrightarrow> json_wf r) \<Longrightarrow> returns_json (unary_call e f)"
  by (auto simp: returns_json_def unary_call_def split: list.splits)

lemma returns_json_binary:
  "(\<And>v w r. json_wf v \<Longrightarrow> json_wf w \<Longrightarrow> f v w = Inr r \<Longrightarrow> json_wf r) \<Longrightarrow> returns_json (binary_call e f)"
  unfolding returns_json_def
proof (intro allI impI)
  fix vs r
  assume *: "\<And>v w r. json_wf v \<Longrightarrow> json_wf w \<Longrightarrow> f v w = Inr r \<Longrightarrow> json_wf r"
    "list_all json_wf vs" "binary_call e f vs = Inr r"
  from *(3) obtain v w where "vs = [v, w]" "f v w = Inr r"
    unfolding binary_call_def by (simp split: list.split_asm)
  then show "json_wf r" using *(1) [of v w r] *(2) by simp
qed

lemma returns_json_string: "(\<And>s. json_wf (f s)) \<Longrightarrow> returns_json (unary_call e (\<lambda>v. with_string d v f))"
  by (rule returns_json_unary, erule with_wf(1))

lemma returns_json_strings:
  "(\<And>s t. json_wf (f s t)) \<Longrightarrow> returns_json (binary_call e (\<lambda>v w. with_strings d v w f))"
  by (rule returns_json_binary, erule with_wf(2))

lemma returns_json_array:
  "(\<And>vs r. list_all json_wf vs \<Longrightarrow> f vs = Inr r \<Longrightarrow> json_wf r) \<Longrightarrow>
   returns_json (unary_call e (\<lambda>v. with_array d v f))"
  by (rule returns_json_unary, erule (1) with_wf(3))

lemma returns_json_object:
  "(\<And>m. bt_wf m \<Longrightarrow> list_all (\<lambda>(k, v). json_wf v) m \<Longrightarrow> json_wf (f m)) \<Longrightarrow>
   returns_json (unary_call e (\<lambda>v. with_object d v f))"
  by (rule returns_json_unary, erule (1) with_wf(4))

lemma returns_json_special: "returns_json replace_call" "returns_json join_call"
  by (auto simp: returns_json_def replace_call_def join_call_def join_values_wf split: list.splits json.splits)

lemma list_all_strings [simp]: "list_all json_wf (map String ss)" "list_all json_wf (map (String \<circ> f) xs)"
  by (simp_all add: list_all_iff)

lemma list_all_snd: "list_all (\<lambda>(k, v). json_wf v) m \<Longrightarrow> list_all json_wf (map snd m)"
  by (auto simp: list_all_iff)

lemma builtins_wf: "list_all (\<lambda>(name, f). returns_json f) (builtins up)"
  unfolding builtins_def list.pred_inject prod.case
  by (intro conjI TrueI returns_json_string returns_json_strings returns_json_object returns_json_array
        returns_json_special returns_json_unary returns_json_binary)
     (simp_all add: and_then_Inr_iff number_from_u64_def list_all_flatten, auto intro: array_function_wf
        simp: list_all_strings list_all_snd)

lemma evaluate_call_wf:
  assumes "list_all json_wf arguments" "evaluate_call up name arguments = Inr r"
  shows "json_wf r"
proof (cases "map_of (builtins up) name")
  case (Some f)
  then have "(name, f) \<in> set (builtins up)" by (rule map_of_SomeD)
  then have "returns_json f" using builtins_wf [of up] by (auto simp: list_all_iff)
  then show ?thesis using assms Some by (simp add: returns_json_def evaluate_call_def)
qed (use assms(2) in \<open>simp add: evaluate_call_def\<close>)

end
