(* ===== verification/ValueBag.thy ===== *)
theory ValueBag
  imports ExprPrint ExprValues
begin

text \<open>
  The values a run exposes to expressions (\<open>crates/contract/src/expr/bag.rs\<close>), evaluation of
  an expression against them (\<open>ExpressionNode::evaluate\<close> in \<open>parser.rs\<close>) and the entry points
  \<open>eval_value\<close>, \<open>eval_bool_typed\<close> and \<open>eval_expression\<close> (\<open>lexer.rs\<close>). The \<open>Display\<close> text of an
  \<open>ExprError\<close>, into which \<open>eval_bool\<close> and \<open>eval_value\<close> turn their error, is not rendered.
\<close>

record value_bag =
  vb_inputs :: "(string, json) btree"
  vb_steps :: "(string, json) btree"
  vb_statuses :: "(string, json) btree"
  vb_reasons :: "(string, json) btree"
  vb_item :: "json option"

section \<open>Updates\<close>

definition with_inputs :: "(string, json) btree \<Rightarrow> value_bag" where
  "with_inputs inputs =
     \<lparr>vb_inputs = inputs, vb_steps = [], vb_statuses = [], vb_reasons = [], vb_item = None\<rparr>"

definition set_step_output :: "string \<Rightarrow> json \<Rightarrow> value_bag \<Rightarrow> value_bag" where
  "set_step_output nid v bag = bag\<lparr>vb_steps := bt_insert nid v (vb_steps bag)\<rparr>"

definition publish_step_output ::
    "string \<Rightarrow> string option \<Rightarrow> json option \<Rightarrow> string option \<Rightarrow> value_bag \<Rightarrow> value_bag" where
  "publish_step_output node_id output_alias output extra_alias bag =
     (case output of
        None \<Rightarrow> bag
      | Some v \<Rightarrow>
          (let name = (case output_alias of Some a \<Rightarrow> a | None \<Rightarrow> node_id);
               bag = set_step_output name v bag
           in case extra_alias of Some extra \<Rightarrow> set_step_output extra v bag | None \<Rightarrow> bag))"

definition set_inputs :: "(string, json) btree \<Rightarrow> value_bag \<Rightarrow> value_bag" where
  "set_inputs inputs bag = bag\<lparr>vb_inputs := inputs\<rparr>"

definition set_step_status :: "string \<Rightarrow> string \<Rightarrow> value_bag \<Rightarrow> value_bag" where
  "set_step_status nid status bag =
     bag\<lparr>vb_statuses := bt_insert nid (String status) (vb_statuses bag),
         vb_reasons := bt_remove nid (vb_reasons bag)\<rparr>"

definition set_step_outcome :: "string \<Rightarrow> string \<Rightarrow> json option \<Rightarrow> value_bag \<Rightarrow> value_bag" where
  "set_step_outcome nid status reason bag =
     bag\<lparr>vb_statuses := bt_insert nid (String status) (vb_statuses bag),
         vb_reasons := (case reason of
             Some r \<Rightarrow> bt_insert nid r (vb_reasons bag)
           | None \<Rightarrow> bt_remove nid (vb_reasons bag))\<rparr>"

definition sync_outcome_metadata :: "value_bag \<Rightarrow> value_bag \<Rightarrow> value_bag" where
  "sync_outcome_metadata folded bag =
     bag\<lparr>vb_statuses := vb_statuses folded, vb_reasons := vb_reasons folded\<rparr>"

definition path_is_within :: "string \<Rightarrow> string \<Rightarrow> bool" where
  "path_is_within path pre \<longleftrightarrow>
     path = pre \<or> list_ex (\<lambda>separator. starts_with path (pre @ separator)) [''/'', ''['', ''@repair.'']"

definition clear_step_outcome_subtree :: "string \<Rightarrow> value_bag \<Rightarrow> value_bag" where
  "clear_step_outcome_subtree pre bag =
     bag\<lparr>vb_statuses := bt_retain (\<lambda>path _. \<not> path_is_within path pre) (vb_statuses bag),
         vb_reasons := bt_retain (\<lambda>path _. \<not> path_is_within path pre) (vb_reasons bag)\<rparr>"

definition sync_step_outcome_subtree :: "value_bag \<Rightarrow> string \<Rightarrow> value_bag \<Rightarrow> value_bag" where
  "sync_step_outcome_subtree folded pre bag =
     (let bag = clear_step_outcome_subtree pre bag
      in bag\<lparr>vb_statuses := bt_extend (vb_statuses bag)
               (filter (\<lambda>(path, _). path_is_within path pre) (vb_statuses folded)),
             vb_reasons := bt_extend (vb_reasons bag)
               (filter (\<lambda>(path, _). path_is_within path pre) (vb_reasons folded))\<rparr>)"

definition set_item :: "json option \<Rightarrow> value_bag \<Rightarrow> value_bag" where
  "set_item v bag = bag\<lparr>vb_item := v\<rparr>"

definition patch_inputs :: "(string, json) btree \<Rightarrow> value_bag \<Rightarrow> value_bag" where
  "patch_inputs values bag = bag\<lparr>vb_inputs := bt_extend (vb_inputs bag) values\<rparr>"

definition patch_step_outputs :: "(string, json) btree \<Rightarrow> value_bag \<Rightarrow> value_bag" where
  "patch_step_outputs values bag = bag\<lparr>vb_steps := bt_extend (vb_steps bag) values\<rparr>"

definition patch_step_statuses :: "(string, string) btree \<Rightarrow> value_bag \<Rightarrow> value_bag" where
  "patch_step_statuses values bag = foldl (\<lambda>bag (key, v). set_step_status key v bag) bag values"

definition absorb :: "value_bag \<Rightarrow> value_bag \<Rightarrow> value_bag" where
  "absorb other bag =
     bag\<lparr>vb_steps := bt_extend (vb_steps bag) (vb_steps other),
         vb_statuses := bt_extend (vb_statuses bag) (vb_statuses other),
         vb_reasons := bt_extend (vb_reasons bag) (vb_reasons other)\<rparr>"

definition absorb_outputs :: "value_bag \<Rightarrow> value_bag \<Rightarrow> value_bag" where
  "absorb_outputs other bag = bag\<lparr>vb_steps := bt_extend (vb_steps bag) (vb_steps other)\<rparr>"

section \<open>Lookup\<close>

fun descend :: "json \<Rightarrow> string list \<Rightarrow> json option" where
  "descend v [] = Some v"
| "descend v (part # parts) =
     (case v of
        Array items \<Rightarrow>
          (case parse_unsigned U64_MAX part of
             None \<Rightarrow> None
           | Some index \<Rightarrow> if index < length items then descend (items ! index) parts else None)
      | _ \<Rightarrow> (case json_get v part of None \<Rightarrow> None | Some w \<Rightarrow> descend w parts))"

fun max_by_len :: "string option \<Rightarrow> string list \<Rightarrow> string option" where
  \<comment> \<open>\<open>Iterator::max_by_key(|id| id.len())\<close>: the last of the longest\<close>
  "max_by_len best [] = best"
| "max_by_len best (nid # ids) =
     max_by_len (case best of
         None \<Rightarrow> Some nid
       | Some b \<Rightarrow> if byte_len b \<le> byte_len nid then Some nid else Some b) ids"

definition bag_step_ids :: "value_bag \<Rightarrow> string list" where
  "bag_step_ids bag = bt_keys (vb_steps bag) @ bt_keys (vb_statuses bag) @ bt_keys (vb_reasons bag)"

definition is_step_id_of :: "string \<Rightarrow> string \<Rightarrow> bool" where
  "is_step_id_of path nid \<longleftrightarrow>
     (case strip_prefix nid path of Some rest \<Rightarrow> starts_with rest ''.'' | None \<Rightarrow> False)"

definition step_field :: "value_bag \<Rightarrow> string \<Rightarrow> string \<Rightarrow> json option" where
  "step_field bag nid field =
     (if field = ''output'' then bt_get (vb_steps bag) nid
      else if field = ''status'' then bt_get (vb_statuses bag) nid
      else if field = ''reason'' then bt_get (vb_reasons bag) nid
      else None)"

definition get_step_path :: "value_bag \<Rightarrow> string \<Rightarrow> json option" where
  "get_step_path bag path =
     (case max_by_len None (filter (is_step_id_of path) (bag_step_ids bag)) of
        None \<Rightarrow> None
      | Some nid \<Rightarrow>
          (case Option.bind (strip_prefix nid path) (strip_prefix ''.'') of
             None \<Rightarrow> None
           | Some segments \<Rightarrow>
               (case split_char (\<lambda>c. c = CHR ''.'') segments of
                  [] \<Rightarrow> None
                | field # parts \<Rightarrow> Option.bind (step_field bag nid field) (\<lambda>v. descend v parts))))"

definition get_path :: "value_bag \<Rightarrow> string \<Rightarrow> json option" where
  "get_path bag path =
     (case split_char (\<lambda>c. c = CHR ''.'') path of
        [] \<Rightarrow> None
      | scope # parts \<Rightarrow>
          if scope = ''inputs'' then
            (case parts of
               [] \<Rightarrow> None
             | name # parts \<Rightarrow> Option.bind (bt_get (vb_inputs bag) name) (\<lambda>v. descend v parts))
          else if scope = ''steps'' then
            Option.bind (strip_prefix ''steps.'' path) (get_step_path bag)
          else if scope = ''item'' then Option.bind (vb_item bag) (\<lambda>v. descend v parts)
          else None)"

definition to_json :: "value_bag \<Rightarrow> json" where
  "to_json bag =
     (let entry = (\<lambda>key.
        Object (bt_collect
          ((case bt_get (vb_steps bag) key of Some v \<Rightarrow> [(''output'', v)] | None \<Rightarrow> [])
         @ (case bt_get (vb_statuses bag) key of Some v \<Rightarrow> [(''status'', v)] | None \<Rightarrow> [])
         @ (case bt_get (vb_reasons bag) key of Some v \<Rightarrow> [(''reason'', v)] | None \<Rightarrow> []))))
      in Object (bt_collect
           [(''inputs'', Object (vb_inputs bag)),
            (''steps'', Object (bt_collect
               (map (\<lambda>key. (key, entry key)) (remdups_adj (sort (bag_step_ids bag)))))),
            (''item'', (case vb_item bag of Some v \<Rightarrow> v | None \<Rightarrow> Null))]))"

section \<open>Evaluation\<close>







section \<open>Well-formed bags\<close>

definition entries_wf :: "(string, json) btree \<Rightarrow> bool" where
  "entries_wf m \<longleftrightarrow> bt_wf m \<and> (\<forall>k v. bt_get m k = Some v \<longrightarrow> json_wf v)"

definition bag_wf :: "value_bag \<Rightarrow> bool" where
  "bag_wf bag \<longleftrightarrow> entries_wf (vb_inputs bag) \<and> entries_wf (vb_steps bag)
     \<and> entries_wf (vb_statuses bag) \<and> entries_wf (vb_reasons bag)
     \<and> (\<forall>v. vb_item bag = Some v \<longrightarrow> json_wf v)"

lemma entries_wf_Nil [simp]: "entries_wf []"
  by (simp add: entries_wf_def)

lemma entries_wf_insert [simp]: "entries_wf m \<Longrightarrow> json_wf v \<Longrightarrow> entries_wf (bt_insert k v m)"
  by (auto simp: entries_wf_def split: if_splits)

lemma entries_wf_retain [simp]: "entries_wf m \<Longrightarrow> entries_wf (bt_retain P m)"
proof -
  assume m: "entries_wf m"
  have "json_wf v" if "bt_get (bt_retain P m) k = Some v" for k v
  proof -
    have "(k, v) \<in> set m" using map_of_SomeD [OF that] by (simp add: bt_retain_def)
    then show ?thesis using m by (auto simp: entries_wf_def bt_get_Some_iff [symmetric])
  qed
  then show ?thesis using m by (simp add: entries_wf_def)
qed

lemma entries_wf_remove [simp]: "entries_wf m \<Longrightarrow> entries_wf (bt_remove k m)"
  by (simp add: bt_remove_def)

lemma entries_wf_extend [simp]:
  "entries_wf m \<Longrightarrow> (\<And>k v. (k, v) \<in> set kvs \<Longrightarrow> json_wf v) \<Longrightarrow> entries_wf (bt_extend m kvs)"
proof (induction kvs arbitrary: m)
  case (Cons kv kvs)
  obtain k v where kv: "kv = (k, v)" by (cases kv)
  have "json_wf v" using Cons.prems(2) [of k v] kv by simp
  then have "entries_wf (bt_extend (bt_insert k v m) kvs)"
    using Cons.prems(1) by (intro Cons.IH) (auto intro: Cons.prems(2))
  then show ?case by (simp add: bt_extend_def kv)
qed (simp add: bt_extend_def)

lemma entries_wf_member: "entries_wf m \<Longrightarrow> (k, v) \<in> set m \<Longrightarrow> json_wf v"
  by (auto simp: entries_wf_def bt_get_Some_iff [symmetric])

lemmas bag_updates = with_inputs_def set_step_output_def set_inputs_def set_step_status_def
  set_step_outcome_def sync_outcome_metadata_def clear_step_outcome_subtree_def
  sync_step_outcome_subtree_def set_item_def patch_inputs_def patch_step_outputs_def
  absorb_def absorb_outputs_def

lemma bag_wf_set_status: "bag_wf bag \<Longrightarrow> bag_wf (set_step_status nid status bag)"
  by (simp add: bag_wf_def set_step_status_def)

lemma bag_wf_updates:
  assumes "bag_wf bag"
  shows "json_wf v \<Longrightarrow> bag_wf (set_step_output nid v bag)"
    and "entries_wf m \<Longrightarrow> bag_wf (set_inputs m bag)"
    and "(\<And>r. reason = Some r \<Longrightarrow> json_wf r) \<Longrightarrow> bag_wf (set_step_outcome nid status reason bag)"
    and "bag_wf folded \<Longrightarrow> bag_wf (sync_outcome_metadata folded bag)"
    and "bag_wf (clear_step_outcome_subtree pre bag)"
    and "bag_wf folded \<Longrightarrow> bag_wf (sync_step_outcome_subtree folded pre bag)"
    and "(\<And>v. item = Some v \<Longrightarrow> json_wf v) \<Longrightarrow> bag_wf (set_item item bag)"
    and "entries_wf m \<Longrightarrow> bag_wf (patch_inputs m bag)"
    and "entries_wf m \<Longrightarrow> bag_wf (patch_step_outputs m bag)"
    and "bag_wf (patch_step_statuses statuses bag)"
    and "bag_wf other \<Longrightarrow> bag_wf (absorb other bag)"
    and "bag_wf other \<Longrightarrow> bag_wf (absorb_outputs other bag)"
proof -
  show "bag_wf (patch_step_statuses statuses bag)"
    using assms unfolding patch_step_statuses_def
    by (induction statuses arbitrary: bag) (auto simp: bag_wf_set_status)
qed (use assms in \<open>auto simp: bag_wf_def bag_updates Let_def intro!: entries_wf_extend
       dest: entries_wf_member split: option.splits\<close>)







section \<open>Evaluation yields JSON values\<close>












section \<open>Looking up what was published\<close>

lemma max_by_len_unique:
  "x \<in> set ids \<union> set_option best \<Longrightarrow> (\<forall>y\<in>set ids \<union> set_option best. y = x \<or> byte_len y < byte_len x) \<Longrightarrow>
   max_by_len best ids = Some x"
proof (induction best ids rule: max_by_len.induct)
  case (2 best i ids)
  show ?case
    unfolding max_by_len.simps
    by (rule "2.IH") (use "2.prems" in \<open>auto split: option.splits\<close>)
qed (auto simp: elem_set)

lemma byte_len_append: "byte_len (a @ b) = byte_len a + byte_len b"
  by (induction a) simp_all

lemma is_step_id_of_field:
  assumes "CHR ''.'' \<notin> set f"
  shows "is_step_id_of (nid @ CHR ''.'' # f) i \<Longrightarrow> i = nid \<or> byte_len i < byte_len nid"
proof -
  assume "is_step_id_of (nid @ CHR ''.'' # f) i"
  then obtain r where r: "nid @ CHR ''.'' # f = i @ CHR ''.'' # r"
    by (auto simp: is_step_id_of_def strip_prefix_Some_iff starts_with_iff split: option.splits)
  then obtain us where "nid @ us = i \<and> CHR ''.'' # f = us @ CHR ''.'' # r \<or> nid = i @ us \<and> us @ CHR ''.'' # f = CHR ''.'' # r"
    by (auto simp: append_eq_append_conv2)
  then show ?thesis
  proof (elim disjE conjE)
    assume "nid @ us = i" "CHR ''.'' # f = us @ CHR ''.'' # r"
    then show ?thesis using assms by (cases us) auto
  next
    assume "nid = i @ us"
    then show ?thesis using length_le_byte_len [of us] by (cases us) (auto simp: byte_len_append)
  qed
qed

lemma get_step_path_field:
  assumes "CHR ''.'' \<notin> set f" "nid \<in> set (bag_step_ids bag)"
  shows "get_step_path bag (nid @ CHR ''.'' # f) = step_field bag nid f"
proof -
  let ?path = "nid @ CHR ''.'' # f"
  have strip: "strip_prefix nid ?path = Some (CHR ''.'' # f)" "strip_prefix ''.'' (CHR ''.'' # f) = Some f"
    by (simp_all add: strip_prefix_Some_iff)
  then have self: "is_step_id_of ?path nid" by (simp add: is_step_id_of_def starts_with_def)
  have "max_by_len None (filter (is_step_id_of ?path) (bag_step_ids bag)) = Some nid"
    by (rule max_by_len_unique) (use assms self is_step_id_of_field [OF assms(1)] in auto)
  moreover have "split_char (\<lambda>c. c = CHR ''.'') f = [f]"
    using assms(1) by (intro split_char_id) auto
  ultimately show ?thesis using strip by (cases "step_field bag nid f") (simp_all add: get_step_path_def)
qed

lemma get_path_steps: "get_path bag (''steps.'' @ rest) = get_step_path bag rest"
proof -
  have "strip_prefix ''steps.'' (''steps.'' @ rest) = Some rest" by (simp add: strip_prefix_Some_iff)
  moreover have "\<exists>parts. split_char (\<lambda>c. c = CHR ''.'') (''steps.'' @ rest) = ''steps'' # parts" by simp
  ultimately show ?thesis unfolding get_path_def by (elim exE) simp
qed

lemma get_path_field:
  assumes "nid \<in> set (bag_step_ids bag)"
  shows "get_path bag (''steps.'' @ nid @ ''.output'') = bt_get (vb_steps bag) nid"
    and "get_path bag (''steps.'' @ nid @ ''.status'') = bt_get (vb_statuses bag) nid"
    and "get_path bag (''steps.'' @ nid @ ''.reason'') = bt_get (vb_reasons bag) nid"
  using get_step_path_field [OF _ assms, of "''output''"] get_step_path_field [OF _ assms, of "''status''"]
    get_step_path_field [OF _ assms, of "''reason''"]
  by (simp_all add: get_path_steps step_field_def del: append_Cons)

section \<open>Subtrees of outcomes\<close>

lemma bt_get_sync:
  assumes "bt_wf m" "bt_wf n"
  shows "bt_get (bt_extend (bt_retain (\<lambda>path _. \<not> P path) m) (filter (\<lambda>(path, _). P path) n)) p =
    (if P p then bt_get n p else bt_get m p)"
proof -
  have n: "filter (\<lambda>(path, _). P path) n = bt_retain (\<lambda>path _. P path) n" by (simp add: bt_retain_def)
  show ?thesis unfolding n using assms by (auto simp: bt_get_extend_wf map_add_def split: option.splits)
qed

lemma path_is_within_append: "path_is_within path pre \<Longrightarrow> \<exists>rest. path = pre @ rest"
  by (auto simp: path_is_within_def starts_with_iff)

lemma append_separator_inject: "a @ d # r = b @ d # s \<Longrightarrow> d \<notin> set a \<Longrightarrow> d \<notin> set b \<Longrightarrow> a = b"
proof (induction a arbitrary: b)
  case Nil
  then show ?case by (cases b) auto
next
  case (Cons c a)
  then show ?case by (cases b) auto
qed

lemma iteration_subtrees_disjoint:
  assumes "path_is_within path (pre @ ''['' @ nat_to_string i @ '']'')"
    "path_is_within path (pre @ ''['' @ nat_to_string j @ '']'')"
  shows "i = j"
proof -
  obtain r s where "nat_to_string i @ CHR '']'' # r = nat_to_string j @ CHR '']'' # s"
    using assms [THEN path_is_within_append] by auto
  moreover have "CHR '']'' \<notin> set (nat_to_string k)" for k
    using nat_to_string_digits [of k] by (auto simp: list_all_iff rust_str)
  ultimately have "nat_to_string i = nat_to_string j"
    by (blast intro: append_separator_inject)
  then show ?thesis by simp
qed

section \<open>Properties\<close>




text \<open>C28: After a step's outcome and output are recorded under a node path, the expression paths
  \<open>steps.<path>.output\<close>, \<open>.status\<close> and \<open>.reason\<close> read exactly these values, whatever other paths
  (with dots, as repair paths have them) the bag knows.\<close>

theorem outcome_lookup:
  "get_path (set_step_output nid v bag) (''steps.'' @ nid @ ''.output'') = Some v
   \<and> get_path (set_step_outcome nid status reason bag) (''steps.'' @ nid @ ''.status'') = Some (String status)
   \<and> get_path (set_step_outcome nid status reason bag) (''steps.'' @ nid @ ''.reason'') = reason
   \<and> get_path (set_step_status nid status bag) (''steps.'' @ nid @ ''.reason'') = None"
proof -
  have "nid \<in> set (bag_step_ids (set_step_output nid v bag))" "nid \<in> set (bag_step_ids (set_step_outcome nid status reason bag))"
      "nid \<in> set (bag_step_ids (set_step_status nid status bag))"
    unfolding bag_step_ids_def set_step_output_def set_step_outcome_def set_step_status_def
    by (simp_all add: set_bt_insert_keys del: set_map)
  note * = this [THEN get_path_field(1)] this [THEN get_path_field(2)] this [THEN get_path_field(3)]
  show ?thesis
    unfolding * by (simp add: set_step_output_def set_step_outcome_def set_step_status_def split: option.splits)
qed

text \<open>C29: Refreshing one subtree from the folded state takes exactly the outcomes of that subtree:
  within it every status and reason is the folded one (or absent), outside it nothing changes,
  and neither do outputs, inputs and the loop item. In particular the subtree of another
  iteration is untouched.\<close>

theorem sync_subtree_exact:
  assumes "bag_wf bag" "bag_wf folded"
  shows "let bag' = sync_step_outcome_subtree folded pre bag in
    bt_get (vb_statuses bag') p = bt_get (vb_statuses (if path_is_within p pre then folded else bag)) p
    \<and> bt_get (vb_reasons bag') p = bt_get (vb_reasons (if path_is_within p pre then folded else bag)) p
    \<and> vb_steps bag' = vb_steps bag \<and> vb_inputs bag' = vb_inputs bag \<and> vb_item bag' = vb_item bag
    \<and> (pre = base @ ''['' @ nat_to_string i @ '']'' \<longrightarrow> i \<noteq> j \<longrightarrow>
         path_is_within p (base @ ''['' @ nat_to_string j @ '']'') \<longrightarrow>
         bt_get (vb_statuses bag') p = bt_get (vb_statuses bag) p)"
proof -
  have "bt_wf (vb_statuses bag)" "bt_wf (vb_reasons bag)" "bt_wf (vb_statuses folded)" "bt_wf (vb_reasons folded)"
    using assms(1,2) by (simp_all add: bag_wf_def entries_wf_def)
  then show ?thesis
    using iteration_subtrees_disjoint [of p base i j]
    by (auto simp: sync_step_outcome_subtree_def clear_step_outcome_subtree_def Let_def bt_get_sync)
qed

theorem sync_subtree_exact_witness:
  "bt_get (vb_statuses (sync_step_outcome_subtree (set_step_status ''e[0]/a'' ''success'' (with_inputs []))
     ''e[0]'' (set_step_status ''e[1]/a'' ''failed'' (with_inputs [])))) ''e[0]/a'' = Some (String ''success'')"
proof -
  let ?folded = "set_step_status ''e[0]/a'' ''success'' (with_inputs [])"
  let ?bag = "set_step_status ''e[1]/a'' ''failed'' (with_inputs [])"
  have "bag_wf ?bag" "bag_wf ?folded"
    by (intro bag_wf_set_status; simp add: bag_wf_def with_inputs_def)+
  from sync_subtree_exact [OF this, of "''e[0]''" "''e[0]/a''"] show ?thesis
    by (simp add: Let_def path_is_within_def rust_str set_step_status_def)
qed

end
