(* ===== verification/Failure.thy ===== *)
theory Failure
  imports Json
begin

text \<open>
  Node paths and failure facts (\<open>crates/model/src/types/path.rs\<close>, \<open>failure.rs\<close>): the values a run
  records about a node that did not succeed.
\<close>

section \<open>Node paths\<close>

type_synonym node_path = string

definition foreach_child :: "node_path \<Rightarrow> nat \<Rightarrow> string \<Rightarrow> node_path" where
  "foreach_child p index child = p @ ''['' @ nat_to_string index @ '']/'' @ child"

definition repair_child :: "node_path \<Rightarrow> nat \<Rightarrow> string \<Rightarrow> node_path" where
  "repair_child p attempt child = p @ ''@repair.'' @ nat_to_string attempt @ ''/'' @ child"

section \<open>Failure details\<close>

datatype failure_code =
    WhenFalse
  | DependencyUnsatisfied
  | NoDependencySucceeded
  | CheckFailed
  | ExecutionFailed
  | ElapsedExceeded
  | TimedOut
  | RepairExhausted
  | SchedulerFailed
  | Canceled
  | Interrupted
  | BudgetExceeded
  | ProviderContextExhausted
  | Refused
  | McpAuthorizationRequired

datatype dependency_status = DepSkipped | DepFailed

record dependency_failure =
  df_path :: node_path
  df_status :: dependency_status
  df_message :: string

record budget_exhaustion =
  be_resource :: string
  be_used :: nat
  be_allowed :: nat
  be_used_subsec_nanoseconds :: "nat option"

definition budget_exhaustion_elapsed :: "nat \<Rightarrow> nat \<Rightarrow> nat \<Rightarrow> budget_exhaustion" where
  \<comment> \<open>a \<open>Duration\<close> is its whole seconds and its nanoseconds below one second\<close>
  "budget_exhaustion_elapsed used_secs used_nanos allowed =
     \<lparr>be_resource = ''elapsed_seconds'', be_used = used_secs, be_allowed = allowed,
      be_used_subsec_nanoseconds = Some used_nanos\<rparr>"

record failure_detail =
  fd_code :: failure_code
  fd_message :: string
  fd_dependencies :: "dependency_failure list"
  fd_exhaustion :: "budget_exhaustion option"

definition failure_detail_new :: "failure_code \<Rightarrow> string \<Rightarrow> failure_detail" where
  "failure_detail_new code message =
     \<lparr>fd_code = code, fd_message = message, fd_dependencies = [], fd_exhaustion = None\<rparr>"

definition failure_detail_from :: "string \<Rightarrow> failure_detail" where
  "failure_detail_from message = failure_detail_new ExecutionFailed message"

end
