(* ===== verification/Graph.thy ===== *)
theory Graph
  imports Failure
begin

text \<open>
  The dependency graph of a flow (\<open>crates/contract/src/graph\<close>): implicit dependencies, the checks
  of \<open>Graph::build\<close>, the topological order and the decisions whether a node may run or is skipped
  because of its dependencies. Of \<open>NodeDef\<close> (\<open>manifest/nodes.rs\<close>) the record keeps the fields these
  operations read; of the \<open>toml\<close> values of \<open>params\<close>, whether one is a string.
\<close>

section \<open>Nodes\<close>

datatype on_deps = AllSucceeded | AnySucceeded | NoneFailed

datatype exhausted_action = ExhaustedFail | ExhaustedRoute string | ExhaustedAskUser

datatype on_fail =
    OnFailRepair string string nat exhausted_action
  | OnFailRegenerate nat exhausted_action
  | OnFailAskUser
  | OnFailRoute string
  | OnFailFail

datatype toml_value = TomlString string | TomlOther

record node_def =
  nd_id :: string
  nd_kind :: string
  nd_needs :: "string list"
  nd_on_deps :: on_deps
  nd_on_fail :: "on_fail option"
  nd_params :: "(string, toml_value) btree"

record manifest =
  mf_flow :: "node_def list"
  mf_parallel :: "string list"
  mf_blocks :: "(string, node_def list) btree"

record graph =
  g_nodes :: "(string, node_def) btree"
  g_order :: "string list"

datatype node_state =
    NodePending
  | NodeRunning
  | NodeSuccess
  | NodeSkipped failure_detail
  | NodeFailed failure_detail

definition param_str :: "node_def \<Rightarrow> string \<Rightarrow> string option" where
  "param_str node key =
     (case bt_get (nd_params node) key of Some (TomlString s) \<Rightarrow> Some s | _ \<Rightarrow> None)"

section \<open>Implicit dependencies\<close>

fun position :: "('a \<Rightarrow> bool) \<Rightarrow> 'a list \<Rightarrow> nat option" where
  "position P [] = None"
| "position P (x # xs) = (if P x then Some 0 else map_option Suc (position P xs))"

definition parallel_indices :: "manifest \<Rightarrow> string + nat list" where
  "parallel_indices m =
     collect_results (map (\<lambda>nid. ok_or (position (\<lambda>node. nd_id node = nid) (mf_flow m))
       (''parallel references unknown node `'' @ nid @ ''`'')) (mf_parallel m))"

definition parallel_bounds :: "nat list \<Rightarrow> string + nat \<times> nat" where
  "parallel_bounds indices =
     (if length indices < 2 then Inl ''parallel must contain at least two node ids''
      else
        (let first = Min (set indices); final = Max (set indices)
         in if final - first + 1 \<noteq> length indices
            then Inl ''parallel node ids must be contiguous in flow order''
            else if \<not> list_all (\<lambda>index. index \<in> set indices) [first..<final + 1]
            then Inl ''parallel node ids must be unique and contiguous''
            else Inr (first, final)))"

definition anchor_parallel :: "node_def list \<Rightarrow> nat \<Rightarrow> nat \<Rightarrow> string + node_def list" where
  \<comment> \<open>the loop over \<open>flow[first..=final]\<close>\<close>
  "anchor_parallel flow first final =
     and_then (for_each (\<lambda>node. ensure (nd_needs node = [])
         (''parallel node `'' @ nd_id node @ ''` must not also declare needs''))
         (take (final + 1 - first) (drop first flow)))
       (\<lambda>_. Inr (map (\<lambda>(index, node).
          if first \<le> index \<and> index \<le> final \<and> 0 < first
          then node\<lparr>nd_needs := [nd_id (flow ! (first - 1))]\<rparr> else node)
          (enumerate 0 flow)))"

definition join_parallel :: "string list \<Rightarrow> nat \<Rightarrow> node_def list \<Rightarrow> node_def list" where
  \<comment> \<open>the node after the group waits for the whole group\<close>
  "join_parallel members final flow =
     (if final + 1 < length flow \<and> nd_needs (flow ! (final + 1)) = []
      then flow[final + 1 := (flow ! (final + 1))\<lparr>nd_needs := members\<rparr>] else flow)"

definition chain_flow :: "(nat \<times> nat) option \<Rightarrow> node_def list \<Rightarrow> node_def list" where
  "chain_flow parallel_range flow =
     map (\<lambda>(index, node).
       if 0 < index \<and> nd_needs node = []
          \<and> (case parallel_range of None \<Rightarrow> True | Some (first, final) \<Rightarrow> \<not> (first \<le> index \<and> index \<le> final))
       then node\<lparr>nd_needs := [nd_id (flow ! (index - 1))]\<rparr> else node)
       (enumerate 0 flow)"

definition flow_with_implicit_dependencies :: "manifest \<Rightarrow> string + node_def list" where
  "flow_with_implicit_dependencies m =
     and_then (parallel_indices m) (\<lambda>indices.
       if indices = [] then Inr (chain_flow None (mf_flow m))
       else
         and_then (parallel_bounds indices) (\<lambda>(first, final).
         and_then (anchor_parallel (mf_flow m) first final) (\<lambda>flow.
           Inr (chain_flow (Some (first, final)) (join_parallel (mf_parallel m) final flow)))))"

section \<open>Checks\<close>

definition validate_on_exhausted_ref ::
    "node_def \<Rightarrow> (string, node_def) btree \<Rightarrow> exhausted_action \<Rightarrow> string + unit" where
  "validate_on_exhausted_ref node nodes action =
     (case action of
        ExhaustedRoute to \<Rightarrow> ensure (bt_contains_key nodes to)
          (''node `'' @ nd_id node @ ''` on_fail on_exhausted route references unknown node `'' @ to @ ''`'')
      | _ \<Rightarrow> Inr ())"

definition validate_on_fail_ref ::
    "node_def \<Rightarrow> (string, node_def) btree \<Rightarrow> on_fail \<Rightarrow> string + unit" where
  "validate_on_fail_ref node nodes on_fail =
     (case on_fail of
        OnFailRepair repair recheck max_attempts on_exhausted \<Rightarrow>
          and_then (ensure (bt_contains_key nodes repair)
            (''node `'' @ nd_id node @ ''` on_fail repair references unknown node `'' @ repair @ ''`'')) (\<lambda>_.
          and_then (ensure (bt_contains_key nodes recheck)
            (''node `'' @ nd_id node @ ''` on_fail recheck references unknown node `'' @ recheck @ ''`'')) (\<lambda>_.
          validate_on_exhausted_ref node nodes on_exhausted))
      | OnFailRoute to \<Rightarrow> ensure (bt_contains_key nodes to)
          (''node `'' @ nd_id node @ ''` on_fail route references unknown node `'' @ to @ ''`'')
      | OnFailRegenerate max_attempts on_exhausted \<Rightarrow> validate_on_exhausted_ref node nodes on_exhausted
      | _ \<Rightarrow> Inr ())"

definition validate_on_fail_refs :: "node_def \<Rightarrow> (string, node_def) btree \<Rightarrow> string + unit" where
  "validate_on_fail_refs node nodes =
     (case nd_on_fail node of None \<Rightarrow> Inr () | Some on_fail \<Rightarrow> validate_on_fail_ref node nodes on_fail)"

definition validate_foreach :: "manifest \<Rightarrow> node_def \<Rightarrow> string + unit" where
  "validate_foreach m node =
     (if nd_kind node = ''foreach'' then
        and_then (ok_or (param_str node ''subflow'')
          (''foreach node `'' @ nd_id node @ ''` must declare subflow'')) (\<lambda>subflow.
        and_then (ok_or (bt_get (mf_blocks m) subflow)
          (''foreach node `'' @ nd_id node @ ''` references unknown block `'' @ subflow @ ''`'')) (\<lambda>block.
        for_each (\<lambda>child. ensure (nd_needs child = [])
          (''foreach block `'' @ subflow @ ''` child `'' @ nd_id child
           @ ''` must not declare `needs`; block children run in declared order'')) block))
      else Inr ())"

fun insert_nodes :: "node_def list \<Rightarrow> (string, node_def) btree \<Rightarrow> string + (string, node_def) btree" where
  "insert_nodes [] nodes = Inr nodes"
| "insert_nodes (node # flow) nodes =
     (if bt_contains_key nodes (nd_id node) then Inl (''duplicate node `'' @ nd_id node @ ''`'')
      else insert_nodes flow (bt_insert (nd_id node) node nodes))"

definition validate_node :: "manifest \<Rightarrow> (string, node_def) btree \<Rightarrow> node_def \<Rightarrow> string + unit" where
  "validate_node m nodes node =
     and_then (for_each (\<lambda>need. ensure (bt_contains_key nodes need)
       (''node `'' @ nd_id node @ ''` depends on unknown node `'' @ need @ ''`'')) (nd_needs node)) (\<lambda>_.
     and_then (validate_on_fail_refs node nodes) (\<lambda>_.
     validate_foreach m node))"

section \<open>Topological order\<close>

definition bt_modify :: "'k \<Rightarrow> ('v \<Rightarrow> 'v) \<Rightarrow> ('k, 'v) btree \<Rightarrow> ('k, 'v) btree" where
  \<comment> \<open>an update through \<open>get_mut\<close>\<close>
  "bt_modify k f m = map (\<lambda>(k', v). (k', if k' = k then f v else v)) m"

definition count_need :: "string \<Rightarrow> string \<Rightarrow> (string, nat) btree \<times> (string, string list) btree
    \<Rightarrow> (string, nat) btree \<times> (string, string list) btree" where
  "count_need nid need = (\<lambda>(indegree, outgoing).
     (bt_insert nid (case bt_get indegree nid of Some d \<Rightarrow> d + 1 | None \<Rightarrow> 1) indegree,
      bt_insert need (case bt_get outgoing need of Some ids \<Rightarrow> ids @ [nid] | None \<Rightarrow> [nid]) outgoing))"

definition count_edges :: "(string, node_def) btree \<Rightarrow> (string, nat) btree \<times> (string, string list) btree" where
  "count_edges nodes =
     fold (\<lambda>(key, node) state. fold (count_need (nd_id node)) (nd_needs node) state) nodes
       (bt_collect (map (\<lambda>key. (key, 0)) (bt_keys nodes)), [])"

fun relax :: "(string, nat) btree \<Rightarrow> string list \<Rightarrow> string list \<Rightarrow> string + (string, nat) btree \<times> string list" where
  \<comment> \<open>the loop over the successors of a node; a degree of 0 would overflow\<close>
  "relax indegree queue [] = Inr (indegree, queue)"
| "relax indegree queue (n # ns) =
     (case bt_get indegree n of
        None \<Rightarrow> Inl (''internal graph error for `'' @ n @ ''`'')
      | Some 0 \<Rightarrow> Inl ''attempt to subtract with overflow''
      | Some (Suc d) \<Rightarrow>
          relax (bt_modify n (\<lambda>d. d - 1) indegree) (if d = 0 then queue @ [n] else queue) ns)"

lemma bt_modify_sum:
  "bt_get m k = Some (Suc d) \<Longrightarrow> sum_list (map snd (bt_modify k (\<lambda>d. d - 1) m)) < sum_list (map snd m)"
proof (induction m)
  case (Cons kv m)
  have "sum_list (map snd (bt_modify k (\<lambda>d. d - 1) m)) \<le> sum_list (map snd m)" for m :: "('a \<times> nat) list"
    by (induction m) (auto simp: bt_modify_def)
  then show ?case using Cons by (cases kv) (auto simp: bt_modify_def le_imp_less_Suc add_less_le_mono split: if_splits)
qed simp

lemma relax_measure:
  "relax indegree queue ns = Inr (indegree', queue') \<Longrightarrow>
   sum_list (map snd indegree') + length queue' \<le> sum_list (map snd indegree) + length queue"
proof (induction indegree queue ns rule: relax.induct)
  case (2 indegree queue n ns)
  then obtain d where d: "bt_get indegree n = Some (Suc d)" by (auto split: option.splits nat.splits)
  then show ?case using 2 bt_modify_sum [OF d] by (fastforce split: if_splits)
qed simp

function topo_loop ::
    "(string, string list) btree \<Rightarrow> (string, nat) btree \<Rightarrow> string list \<Rightarrow> string list \<Rightarrow> string + string list" where
  "topo_loop outgoing indegree [] order = Inr order"
| "topo_loop outgoing indegree (nid # queue) order =
     (case relax indegree queue (case bt_get outgoing nid of Some ids \<Rightarrow> ids | None \<Rightarrow> []) of
        Inl e \<Rightarrow> Inl e
      | Inr (indegree, queue) \<Rightarrow> topo_loop outgoing indegree queue (order @ [nid]))"
  by pat_completeness auto
termination
  by (relation "measure (\<lambda>(outgoing, indegree, queue, order). sum_list (map snd indegree) + length queue)")
     (auto dest!: relax_measure simp: less_Suc_eq_le)

definition topo_sort :: "(string, node_def) btree \<Rightarrow> string + string list" where
  "topo_sort nodes =
     (case count_edges nodes of (indegree, outgoing) \<Rightarrow>
        and_then (topo_loop outgoing indegree
            (map fst (filter (\<lambda>(nid, degree). degree = 0) indegree)) []) (\<lambda>order.
          if length order \<noteq> length nodes
          then Inl (''cycle detected involving ''
                 @ join_with '', '' (filter (\<lambda>nid. nid \<notin> set order) (bt_keys nodes)))
          else Inr order))"

definition build :: "manifest \<Rightarrow> string + graph" where
  "build m =
     and_then (flow_with_implicit_dependencies m) (\<lambda>flow.
     and_then (insert_nodes flow []) (\<lambda>nodes.
     and_then (for_each (\<lambda>(key, node). validate_node m nodes node) nodes) (\<lambda>_.
     and_then (topo_sort nodes) (\<lambda>order.
       Inr \<lparr>g_nodes = nodes, g_order = order\<rparr>))))"

definition roots :: "graph \<Rightarrow> node_def list" where
  "roots g = filter (\<lambda>node. nd_needs node = []) (map snd (g_nodes g))"

section \<open>Dependencies at run time\<close>

definition dependency_failure_entry :: "(string, node_state) btree \<Rightarrow> string \<Rightarrow> dependency_failure option" where
  "dependency_failure_entry states need =
     (case bt_get states need of
        Some (NodeSkipped reason) \<Rightarrow>
          Some \<lparr>df_path = need, df_status = DepSkipped, df_message = fd_message reason\<rparr>
      | Some (NodeFailed reason) \<Rightarrow>
          Some \<lparr>df_path = need, df_status = DepFailed, df_message = fd_message reason\<rparr>
      | _ \<Rightarrow> None)"

definition dependency_message :: "dependency_failure \<Rightarrow> string" where
  "dependency_message failure =
     ''dependency `'' @ df_path failure @ ''` ''
     @ (case df_status failure of DepSkipped \<Rightarrow> ''skipped'' | DepFailed \<Rightarrow> ''failed'')
     @ '': '' @ df_message failure"

definition dependency_failure ::
    "node_def \<Rightarrow> (string, node_state) btree \<Rightarrow> failure_code \<Rightarrow> failure_detail option" where
  "dependency_failure node states code =
     (let dependencies = List.map_filter (dependency_failure_entry states) (nd_needs node)
      in if dependencies = [] then None
         else Some ((failure_detail_new code
           (if code = NoDependencySucceeded then ''on_deps=any_succeeded had no successful dependency''
            else join_with ''; '' (map dependency_message dependencies)))\<lparr>fd_dependencies := dependencies\<rparr>))"

definition is_success :: "(string, node_state) btree \<Rightarrow> string \<Rightarrow> bool" where
  "is_success states need \<longleftrightarrow> bt_get states need = Some NodeSuccess"

definition is_skipped :: "(string, node_state) btree \<Rightarrow> string \<Rightarrow> bool" where
  "is_skipped states need \<longleftrightarrow> (case bt_get states need of Some (NodeSkipped _) \<Rightarrow> True | _ \<Rightarrow> False)"

definition is_failed :: "(string, node_state) btree \<Rightarrow> string \<Rightarrow> bool" where
  "is_failed states need \<longleftrightarrow> (case bt_get states need of Some (NodeFailed _) \<Rightarrow> True | _ \<Rightarrow> False)"

definition is_terminal :: "(string, node_state) btree \<Rightarrow> string \<Rightarrow> bool" where
  "is_terminal states need \<longleftrightarrow> is_success states need \<or> is_skipped states need \<or> is_failed states need"

definition needs_satisfied :: "node_def \<Rightarrow> (string, node_state) btree \<Rightarrow> bool" where
  "needs_satisfied node states =
     (if nd_needs node = [] then True
      else (case nd_on_deps node of
          AllSucceeded \<Rightarrow> list_all (is_success states) (nd_needs node)
        | AnySucceeded \<Rightarrow> list_ex (is_success states) (nd_needs node)
        | NoneFailed \<Rightarrow> list_all (\<lambda>need. is_success states need \<or> is_skipped states need) (nd_needs node)))"

definition should_skip_by_dependencies ::
    "node_def \<Rightarrow> (string, node_state) btree \<Rightarrow> failure_detail option" where
  "should_skip_by_dependencies node states =
     (if nd_needs node = [] then None
      else (case nd_on_deps node of
          AllSucceeded \<Rightarrow> dependency_failure node states DependencyUnsatisfied
        | AnySucceeded \<Rightarrow>
            if list_all (is_terminal states) (nd_needs node) \<and> \<not> list_ex (is_success states) (nd_needs node)
            then dependency_failure node states NoDependencySucceeded else None
        | NoneFailed \<Rightarrow>
            if list_all (is_terminal states) (nd_needs node) \<and> list_ex (is_failed states) (nd_needs node)
            then dependency_failure node states DependencyUnsatisfied else None))"

section \<open>The edges as counts\<close>

definition graph_wf :: "(string, node_def) btree \<Rightarrow> bool" where
  \<comment> \<open>what \<open>build\<close> establishes before it sorts\<close>
  "graph_wf nodes \<longleftrightarrow> bt_wf nodes \<and> (\<forall>(key, node)\<in>set nodes.
     nd_id node = key \<and> set (nd_needs node) \<subseteq> set (bt_keys nodes))"

definition needs_of :: "(string, node_def) btree \<Rightarrow> string \<Rightarrow> string list" where
  "needs_of nodes nid = (case bt_get nodes nid of Some node \<Rightarrow> nd_needs node | None \<Rightarrow> [])"

definition depends :: "(string, node_def) btree \<Rightarrow> (string \<times> string) set" where
  "depends nodes = {(need, nid). need \<in> set (needs_of nodes nid)}"

abbreviation degree_of :: "(string, nat) btree \<Rightarrow> string \<Rightarrow> nat" where
  "degree_of indegree k \<equiv> (case bt_get indegree k of Some d \<Rightarrow> d | None \<Rightarrow> 0)"

abbreviation successors :: "(string, string list) btree \<Rightarrow> string \<Rightarrow> string list" where
  "successors outgoing k \<equiv> (case bt_get outgoing k of Some ids \<Rightarrow> ids | None \<Rightarrow> [])"

lemma fold_count_need:
  fixes indegree :: "(string, nat) btree"
  assumes "fold (count_need nid) needs (indegree, outgoing) = (indegree', outgoing')" "nid \<in> set (bt_keys indegree)"
  shows "degree_of indegree' k = degree_of indegree k + (if k = nid then length needs else 0)"
    and "count_list (successors outgoing' k) j =
      count_list (successors outgoing k) j + (if j = nid then count_list needs k else 0)"
    and "set (bt_keys indegree') = set (bt_keys indegree)"
    and "bt_wf indegree \<Longrightarrow> bt_wf indegree'"
proof -
  have "degree_of indegree' k = degree_of indegree k + (if k = nid then length needs else 0)
    \<and> count_list (successors outgoing' k) j =
      count_list (successors outgoing k) j + (if j = nid then count_list needs k else 0)
    \<and> set (bt_keys indegree') = set (bt_keys indegree) \<and> (bt_wf indegree \<longrightarrow> bt_wf indegree')"
    using assms
  proof (induction needs arbitrary: indegree outgoing)
    case (Cons need needs)
    obtain ind out where step: "count_need nid need (indegree, outgoing) = (ind, out)" by fastforce
    have keys: "set (bt_keys ind) = set (bt_keys indegree)" "bt_wf indegree \<longrightarrow> bt_wf ind"
      using step Cons.prems(2) unfolding count_need_def
      by (auto simp: set_bt_insert_keys simp del: set_map)
    have "degree_of ind k = degree_of indegree k + (if k = nid then 1 else 0)"
      using step by (auto simp: count_need_def split: option.splits)
    moreover have "count_list (successors out k) j =
        count_list (successors outgoing k) j + (if j = nid \<and> k = need then 1 else 0)"
      using step by (cases "k = need") (auto simp: count_need_def split: option.splits)
    moreover have "fold (count_need nid) needs (ind, out) = (indegree', outgoing')"
      using Cons.prems(1) step by simp
    ultimately show ?case using Cons.IH [of ind out] keys Cons.prems(2) by auto
  qed simp
  then show "degree_of indegree' k = degree_of indegree k + (if k = nid then length needs else 0)"
    "count_list (successors outgoing' k) j =
      count_list (successors outgoing k) j + (if j = nid then count_list needs k else 0)"
    "set (bt_keys indegree') = set (bt_keys indegree)" "bt_wf indegree \<Longrightarrow> bt_wf indegree'"
    by blast+
qed

lemma fold_count_edges:
  assumes "fold (\<lambda>(key, node) state. fold (count_need (nd_id node)) (nd_needs node) state) ns (indegree, outgoing)
      = (indegree', outgoing')"
    "distinct (bt_keys ns)" "\<forall>(key, node)\<in>set ns. nd_id node = key \<and> key \<in> set (bt_keys indegree)"
  shows "degree_of indegree' k = degree_of indegree k + length (needs_of ns k)
    \<and> count_list (successors outgoing' k) j = count_list (successors outgoing k) j + count_list (needs_of ns j) k
    \<and> set (bt_keys indegree') = set (bt_keys indegree) \<and> (bt_wf indegree \<longrightarrow> bt_wf indegree')"
  using assms
proof (induction ns arbitrary: indegree outgoing)
  case (Cons kn ns)
  obtain key node where kn: "kn = (key, node)" by (cases kn)
  obtain ind out where step: "fold (count_need (nd_id node)) (nd_needs node) (indegree, outgoing) = (ind, out)"
    by fastforce
  have nid: "nd_id node = key" "key \<in> set (bt_keys indegree)" "key \<notin> set (bt_keys ns)"
    using Cons.prems(2,3) kn by auto
  note one = fold_count_need [OF step, unfolded nid(1), OF nid(2)]
  have rest: "fold (\<lambda>(key, node) state. fold (count_need (nd_id node)) (nd_needs node) state) ns (ind, out)
      = (indegree', outgoing')"
    using Cons.prems(1) step kn by simp
  have "needs_of (kn # ns) i = (if i = key then nd_needs node else needs_of ns i)" for i
    by (simp add: needs_of_def kn)
  moreover have "needs_of ns key = []" using nid(3) by (simp add: needs_of_def bt_get_NoneI)
  moreover note Cons.IH [OF rest] one
  ultimately show ?case using Cons.prems(2,3) by (auto simp: kn)
qed (simp add: needs_of_def)

lemma bt_collect_zero:
  fixes ks :: "string list"
  shows "bt_wf (bt_collect (map (\<lambda>key. (key, 0::nat)) ks)) \<and> set (bt_keys (bt_collect (map (\<lambda>key. (key, 0::nat)) ks))) = set ks
    \<and> degree_of (bt_collect (map (\<lambda>key. (key, 0::nat)) ks)) k = 0"
proof -
  have "degree_of m k = 0 \<Longrightarrow> set (bt_keys (bt_extend m (map (\<lambda>key. (key, 0::nat)) ks))) = set (bt_keys m) \<union> set ks
      \<and> degree_of (bt_extend m (map (\<lambda>key. (key, 0::nat)) ks)) k = 0" for m :: "(string, nat) btree"
  proof (induction ks arbitrary: m)
    case (Cons x ks)
    have "degree_of (bt_insert x 0 m) k = 0" using Cons.prems by simp
    from Cons.IH [OF this] show ?case
      unfolding bt_extend_def by (simp add: set_bt_insert_keys del: set_map)
  qed (simp add: bt_extend_def)
  from this [of "[]"] show ?thesis by (simp add: bt_collect_def)
qed

lemma count_edges_spec:
  assumes "graph_wf nodes" "count_edges nodes = (indegree, outgoing)"
  shows "degree_of indegree k = length (needs_of nodes k)"
    and "count_list (successors outgoing k) j = count_list (needs_of nodes j) k"
    and "set (bt_keys indegree) = set (bt_keys nodes)" and "bt_wf indegree"
proof -
  let ?zero = "bt_collect (map (\<lambda>key. (key, 0::nat)) (bt_keys nodes))"
  have z: "bt_wf ?zero" "set (bt_keys ?zero) = set (bt_keys nodes)" "\<And>k. degree_of ?zero k = 0"
    using bt_collect_zero by blast+
  have "\<forall>(key, node)\<in>set nodes. nd_id node = key \<and> key \<in> set (bt_keys ?zero)"
    using assms(1) unfolding z(2) graph_wf_def by force
  moreover have "distinct (bt_keys nodes)" using assms(1) by (simp add: graph_wf_def bt_wf_distinct)
  moreover have "fold (\<lambda>(key, node) state. fold (count_need (nd_id node)) (nd_needs node) state) nodes (?zero, [])
      = (indegree, outgoing)"
    using assms(2) by (simp add: count_edges_def)
  ultimately have *: "degree_of indegree k = degree_of ?zero k + length (needs_of nodes k)
    \<and> count_list (successors outgoing k) j = count_list (successors [] k) j + count_list (needs_of nodes j) k
    \<and> set (bt_keys indegree) = set (bt_keys ?zero) \<and> (bt_wf ?zero \<longrightarrow> bt_wf indegree)" for k j
    by (intro fold_count_edges)
  show "degree_of indegree k = length (needs_of nodes k)"
    "count_list (successors outgoing k) j = count_list (needs_of nodes j) k"
    "set (bt_keys indegree) = set (bt_keys nodes)" "bt_wf indegree"
    using * [of k j] z by simp_all
qed

section \<open>The loop\<close>

lemma bt_get_modify: "bt_get (bt_modify k f m) k' = map_option (if k' = k then f else (\<lambda>v. v)) (bt_get m k')"
  by (induction m) (auto simp: bt_modify_def)

lemma bt_keys_modify [simp]: "bt_keys (bt_modify k f m) = bt_keys m"
  by (induction m) (auto simp: bt_modify_def)

lemma relax_spec:
  assumes "\<forall>k. count_list ns k \<le> degree_of indegree k"
  shows "\<exists>indegree' more. relax indegree queue ns = Inr (indegree', queue @ more)
    \<and> (\<forall>k. degree_of indegree' k = degree_of indegree k - count_list ns k)
    \<and> bt_keys indegree' = bt_keys indegree \<and> distinct more
    \<and> set more = {k \<in> set ns. degree_of indegree k = count_list ns k}"
  using assms
proof (induction ns arbitrary: indegree queue)
  case Nil
  then show ?case by simp
next
  case (Cons n ns)
  have "0 < degree_of indegree n" using Cons.prems [rule_format, of n] by simp
  then obtain d where d: "bt_get indegree n = Some (Suc d)"
    by (cases "bt_get indegree n"; cases "degree_of indegree n") auto
  let ?ind = "bt_modify n (\<lambda>d. d - 1) indegree"
  have deg: "degree_of ?ind k = degree_of indegree k - (if k = n then 1 else 0)" for k
    using d by (auto simp: bt_get_modify split: option.splits)
  have "\<forall>k. count_list ns k \<le> degree_of ?ind k"
  proof
    fix k
    show "count_list ns k \<le> degree_of ?ind k"
      using Cons.prems [rule_format, of k] deg [of k] by (cases "k = n") auto
  qed
  from Cons.IH [OF this, of "if d = 0 then queue @ [n] else queue"] obtain ind' more where
    more: "relax ?ind (if d = 0 then queue @ [n] else queue) ns =
        Inr (ind', (if d = 0 then queue @ [n] else queue) @ more)"
    "\<forall>k. degree_of ind' k = degree_of ?ind k - count_list ns k" "bt_keys ind' = bt_keys indegree"
    "distinct more" "set more = {k \<in> set ns. degree_of ?ind k = count_list ns k}" by auto
  let ?more = "(if d = 0 then [n] else []) @ more"
  have zero: "count_list ns n = 0" if "d = 0"
    using Cons.prems [rule_format, of n] d that by simp
  have mem: "k \<in> set more \<longleftrightarrow> k \<in> set ns \<and> degree_of ?ind k = count_list ns k" for k using more(5) by simp
  have "set ?more = {k \<in> set (n # ns). degree_of indegree k = count_list (n # ns) k}"
  proof (intro set_eqI iffI)
    fix k
    assume "k \<in> set ?more"
    then show "k \<in> {k \<in> set (n # ns). degree_of indegree k = count_list (n # ns) k}"
      using mem [of k] deg [of k] d zero Cons.prems [rule_format, of k] by (cases "k = n") (auto split: if_splits)
  next
    fix k
    assume "k \<in> {k \<in> set (n # ns). degree_of indegree k = count_list (n # ns) k}"
    then show "k \<in> set ?more"
      using mem [of k] deg [of k] d count_notin [of k ns] by (cases "k = n") (auto simp: count_list_0_iff)
  qed
  moreover have "distinct ?more"
    using more(4) mem [of n] zero by (auto simp: count_list_0_iff)
  moreover have "relax indegree queue (n # ns) = Inr (ind', queue @ ?more)"
    using more(1) d by simp
  moreover have "degree_of ind' k = degree_of indegree k - count_list (n # ns) k" for k
    using more(2) deg [of k] by simp
  ultimately show ?case using more(3) by blast
qed

definition topo_inv ::
    "(string, node_def) btree \<Rightarrow> (string, nat) btree \<Rightarrow> string list \<Rightarrow> string list \<Rightarrow> bool" where
  "topo_inv nodes indegree queue order \<longleftrightarrow>
     (\<forall>k. degree_of indegree k = length (filter (\<lambda>n. n \<notin> set order) (needs_of nodes k)))
     \<and> distinct (order @ queue)
     \<and> set (order @ queue) = {k \<in> set (bt_keys nodes). degree_of indegree k = 0}
     \<and> (\<forall>before x after. order = before @ x # after \<longrightarrow> set (needs_of nodes x) \<subseteq> set before)"

lemma length_filter_snoc:
  "x \<notin> set order \<Longrightarrow> length (filter (\<lambda>n. n \<notin> set (order @ [x])) ns) + count_list ns x =
   length (filter (\<lambda>n. n \<notin> set order) ns)"
  by (induction ns) auto

lemma topo_step:
  assumes inv: "topo_inv nodes indegree (nid # queue) order"
    and succ: "\<And>k j. count_list (successors outgoing k) j = count_list (needs_of nodes j) k"
  shows "\<exists>indegree' queue'. relax indegree queue (successors outgoing nid) = Inr (indegree', queue')
    \<and> topo_inv nodes indegree' queue' (order @ [nid])"
proof -
  note I = inv [unfolded topo_inv_def]
  have fresh: "nid \<notin> set order" "nid \<notin> set queue" using I by auto
  have deg: "degree_of indegree k = length (filter (\<lambda>n. n \<notin> set (order @ [nid])) (needs_of nodes k))
      + count_list (successors outgoing nid) k" for k
    using I length_filter_snoc [OF fresh(1)] succ by metis
  then have "\<forall>k. count_list (successors outgoing nid) k \<le> degree_of indegree k" by simp
  from relax_spec [OF this] obtain ind' more where
    more: "relax indegree queue (successors outgoing nid) = Inr (ind', queue @ more)"
    "\<forall>k. degree_of ind' k = degree_of indegree k - count_list (successors outgoing nid) k" "distinct more"
    "set more = {k \<in> set (successors outgoing nid). degree_of indegree k = count_list (successors outgoing nid) k}"
    by blast
  have deg': "degree_of ind' k = length (filter (\<lambda>n. n \<notin> set (order @ [nid])) (needs_of nodes k))" for k
    using more(2) deg [of k] by simp
  have succ_pos: "k \<in> set (successors outgoing nid) \<longleftrightarrow> 0 < count_list (successors outgoing nid) k" for k
    by (metis count_list_0_iff neq0_conv)
  have key: "k \<in> set (bt_keys nodes)" if "k \<in> set (successors outgoing nid)" for k
  proof -
    have "needs_of nodes k \<noteq> []" using that succ_pos succ by fastforce
    then show ?thesis by (auto simp: needs_of_def dest: map_of_SomeD split: option.splits intro: rev_image_eqI)
  qed
  have more_set: "k \<in> set more \<longleftrightarrow> k \<in> set (bt_keys nodes) \<and> degree_of ind' k = 0 \<and> degree_of indegree k \<noteq> 0" for k
  proof -
    have "k \<in> set more \<longleftrightarrow> k \<in> set (successors outgoing nid) \<and> degree_of indegree k = count_list (successors outgoing nid) k"
      unfolding more(4) by blast
    then show ?thesis using deg [of k] deg' [of k] succ_pos [of k] key [of k] by linarith
  qed
  have old: "k \<in> set (order @ nid # queue) \<longleftrightarrow> k \<in> set (bt_keys nodes) \<and> degree_of indegree k = 0" for k
    using I by blast
  have "k \<in> set ((order @ [nid]) @ queue @ more) \<longleftrightarrow> k \<in> set (bt_keys nodes) \<and> degree_of ind' k = 0" for k
  proof -
    have "k \<in> set ((order @ [nid]) @ queue @ more) \<longleftrightarrow> k \<in> set (order @ nid # queue) \<or> k \<in> set more" by auto
    then show ?thesis unfolding old more_set using deg [of k] deg' [of k] by auto
  qed
  then have "set ((order @ [nid]) @ queue @ more) = {k \<in> set (bt_keys nodes). degree_of ind' k = 0}" by blast
  moreover have "distinct ((order @ [nid]) @ queue @ more)"
  proof -
    have "set (order @ nid # queue) \<inter> set more = {}"
      using old more_set by (metis disjoint_iff)
    then show ?thesis using I more(3) by auto
  qed
  moreover have "set (needs_of nodes x) \<subseteq> set before" if "order @ [nid] = before @ x # after" for before x after
  proof (cases after rule: rev_cases)
    case Nil
    then have x: "x = nid" "before = order" using that by auto
    have "degree_of indegree nid = 0" using old [of nid] by simp
    then have "filter (\<lambda>n. n \<notin> set order) (needs_of nodes nid) = []" using I by simp
    then show ?thesis unfolding x by (auto simp: filter_empty_conv)
  next
    case (snoc ys y)
    then have "order = before @ x # ys" using that by auto
    then show ?thesis using I by blast
  qed
  ultimately show ?thesis using more(1) deg' unfolding topo_inv_def by blast
qed

lemma topo_loop_spec:
  assumes succ: "\<And>k j. count_list (successors outgoing k) j = count_list (needs_of nodes j) k"
  shows "topo_inv nodes indegree queue order \<Longrightarrow>
    \<exists>indegree' order'. topo_loop outgoing indegree queue order = Inr order' \<and> topo_inv nodes indegree' [] order'"
proof (induction "sum_list (map snd indegree) + length queue" arbitrary: indegree queue order rule: less_induct)
  case less
  show ?case
  proof (cases queue)
    case Nil
    then show ?thesis using less.prems by auto
  next
    case (Cons nid rest)
    obtain ind' q' where r: "relax indegree rest (successors outgoing nid) = Inr (ind', q')"
        "topo_inv nodes ind' q' (order @ [nid])"
      using topo_step [OF less.prems [unfolded Cons] succ] by blast
    have "sum_list (map snd ind') + length q' < sum_list (map snd indegree) + length queue"
      using relax_measure [OF r(1)] Cons by simp
    from less.hyps [OF this r(2)] show ?thesis using r(1) Cons by simp
  qed
qed

section \<open>Topological orders\<close>

definition topological :: "(string, node_def) btree \<Rightarrow> string list \<Rightarrow> bool" where
  "topological nodes order \<longleftrightarrow> distinct order \<and> set order = set (bt_keys nodes)
     \<and> (\<forall>before x after. order = before @ x # after \<longrightarrow> set (needs_of nodes x) \<subseteq> set before)"

lemma needs_of_key: "need \<in> set (needs_of nodes k) \<Longrightarrow> k \<in> set (bt_keys nodes)"
  by (rule ccontr, drule bt_get_NoneI) (simp add: needs_of_def)

lemma needs_of_closed:
  assumes "graph_wf nodes" "need \<in> set (needs_of nodes k)"
  shows "need \<in> set (bt_keys nodes)"
proof -
  obtain node where node: "bt_get nodes k = Some node" "need \<in> set (nd_needs node)"
    using assms(2) by (cases "bt_get nodes k") (auto simp: needs_of_def)
  then have "(k, node) \<in> set nodes" by (blast dest: map_of_SomeD)
  then show ?thesis using assms(1) node(2) unfolding graph_wf_def by blast
qed

lemma topological_acyclic:
  assumes "topological nodes order"
  shows "acyclic (depends nodes)"
proof -
  let ?rank = "\<lambda>k. length (takeWhile (\<lambda>x. x \<noteq> k) order)"
  have "?rank need < ?rank k" if "need \<in> set (needs_of nodes k)" for need k
  proof -
    have "k \<in> set order" using assms needs_of_key [OF that] by (simp add: topological_def)
    then obtain before after where o: "order = before @ k # after" "k \<notin> set before"
      by (meson split_list_first)
    then have "need \<in> set before" using assms that unfolding topological_def by blast
    then have "?rank need = length (takeWhile (\<lambda>x. x \<noteq> need) before)" by (simp add: o(1))
    also have "\<dots> < length before"
      using \<open>need \<in> set before\<close> by (induction before) auto
    also have "length before = ?rank k" using o(2) unfolding o(1) by (subst takeWhile_append2) auto
    finally show ?thesis .
  qed
  then have "depends nodes \<subseteq> measure ?rank" by (auto simp: depends_def)
  then show ?thesis by (meson wf_measure wf_subset wf_acyclic)
qed

lemma bt_get_key: "bt_get m k = Some v \<Longrightarrow> k \<in> fst ` set m"
  by (metis fst_conv imageI map_of_SomeD)

lemma topo_inv_start:
  assumes "graph_wf nodes" "count_edges nodes = (indegree, outgoing)"
  shows "topo_inv nodes indegree (map fst (filter (\<lambda>(nid, degree). degree = 0) indegree)) []"
proof -
  note E = count_edges_spec [OF assms]
  have "distinct (map fst (filter (\<lambda>(nid, degree). degree = 0) indegree))"
    using bt_wf_distinct [OF E(4)] by (simp add: distinct_map_filter)
  moreover have "set (map fst (filter (\<lambda>(nid, degree). degree = 0) indegree)) =
      {k \<in> set (bt_keys nodes). degree_of indegree k = 0}"
  proof -
    have "k \<in> set (map fst (filter (\<lambda>(nid, degree). degree = 0) indegree)) \<longleftrightarrow> bt_get indegree k = Some 0" for k
      unfolding bt_get_Some_iff [OF E(4)] by force
    moreover have "k \<in> set (bt_keys nodes) \<and> degree_of indegree k = 0 \<longleftrightarrow> bt_get indegree k = Some 0" for k
      unfolding E(3) [symmetric] by (cases "bt_get indegree k") (auto simp: map_of_eq_None_iff dest: bt_get_key)
    ultimately show ?thesis by blast
  qed
  ultimately show ?thesis using E(1) by (simp add: topo_inv_def)
qed

lemma topo_sort_cases:
  assumes wf: "graph_wf nodes"
  obtains (Sorted) order where "topo_sort nodes = Inr order" "topological nodes order"
  | (Cycle) e where "topo_sort nodes = Inl e" "\<not> acyclic (depends nodes)"
proof -
  obtain indegree outgoing where edges: "count_edges nodes = (indegree, outgoing)" by fastforce
  let ?queue = "map fst (filter (\<lambda>(nid, degree). degree = 0) indegree)"
  obtain ind' order where run: "topo_loop outgoing indegree ?queue [] = Inr order" and
    inv: "topo_inv nodes ind' [] order"
    using topo_loop_spec [OF count_edges_spec(2) [OF wf edges] topo_inv_start [OF wf edges]] by blast
  have I: "\<And>k. degree_of ind' k = length (filter (\<lambda>n. n \<notin> set order) (needs_of nodes k))" "distinct order"
      "set order = {k \<in> set (bt_keys nodes). degree_of ind' k = 0}"
      "\<forall>before x after. order = before @ x # after \<longrightarrow> set (needs_of nodes x) \<subseteq> set before"
    using inv unfolding topo_inv_def append_Nil2 by blast+
  have sub: "set order \<subseteq> set (bt_keys nodes)" unfolding I(3) by blast
  have "distinct (bt_keys nodes)" using wf by (simp add: graph_wf_def bt_wf_distinct)
  then have len: "length order = length nodes \<longleftrightarrow> set order = set (bt_keys nodes)"
    using I(2) sub by (metis card_subset_eq distinct_card finite_set length_map)
  show ?thesis
  proof (cases "length order = length nodes")
    case True
    then have "topological nodes order" using I(2,4) len unfolding topological_def by blast
    then show ?thesis using True edges run by (intro Sorted) (auto simp: topo_sort_def)
  next
    case False
    have "\<not> acyclic (depends nodes)"
    proof
      assume "acyclic (depends nodes)"
      moreover have "depends nodes \<subseteq> set (bt_keys nodes) \<times> set (bt_keys nodes)"
        using needs_of_key needs_of_closed [OF wf] by (auto simp: depends_def)
      then have "finite (depends nodes)" by (rule finite_subset) simp
      ultimately have wf': "wf (depends nodes)" using finite_acyclic_wf by blast
      obtain k where "k \<in> set (bt_keys nodes) - set order" using False len sub by blast
      from wfE_min [OF wf' this] obtain z where z: "z \<in> set (bt_keys nodes) - set order"
          "\<And>y. (y, z) \<in> depends nodes \<Longrightarrow> y \<notin> set (bt_keys nodes) - set order" by blast
      have "degree_of ind' z \<noteq> 0" using z(1) unfolding I(3) Diff_iff mem_Collect_eq by metis
      then obtain y where "y \<in> set (needs_of nodes z)" "y \<notin> set order"
        unfolding I(1) by (auto simp: filter_empty_conv)
      then show False using z(2) [of y] needs_of_closed [OF wf] by (auto simp: depends_def)
    qed
    then show ?thesis using False edges run by (intro Cycle) (auto simp: topo_sort_def)
  qed
qed

section \<open>What \<open>build\<close> establishes\<close>

lemma insert_nodes_Inr:
  "insert_nodes flow nodes = Inr nodes' \<Longrightarrow> bt_wf nodes \<Longrightarrow>
   bt_wf nodes' \<and> distinct (map nd_id flow) \<and> set (map nd_id flow) \<inter> set (bt_keys nodes) = {}
   \<and> (\<forall>k. bt_get nodes' k = (case find (\<lambda>node. nd_id node = k) flow of Some node \<Rightarrow> Some node | None \<Rightarrow> bt_get nodes k))"
proof (induction flow nodes rule: insert_nodes.induct)
  case (2 node flow nodes)
  then have fresh: "nd_id node \<notin> set (bt_keys nodes)"
    by (auto simp: bt_contains_key_iff split: if_splits)
  have "insert_nodes flow (bt_insert (nd_id node) node nodes) = Inr nodes'"
    using 2(2) by (simp split: if_splits)
  from 2(1) [OF _ this] 2(2,3) fresh have IH: "bt_wf nodes'" "distinct (map nd_id flow)"
      "set (map nd_id flow) \<inter> insert (nd_id node) (set (bt_keys nodes)) = {}"
      "\<And>k. bt_get nodes' k = (case find (\<lambda>node. nd_id node = k) flow of Some node \<Rightarrow> Some node
         | None \<Rightarrow> bt_get (bt_insert (nd_id node) node nodes) k)"
    by (auto simp: bt_contains_key_iff set_bt_insert_keys simp del: set_map)
  have new: "nd_id node \<notin> set (map nd_id flow)" using IH(3) by (metis disjoint_iff insertI1)
  then have none: "find (\<lambda>n. nd_id n = nd_id node) flow = None"
    by (auto simp: find_None_iff image_iff)
  have "bt_get nodes' k = (case find (\<lambda>node. nd_id node = k) (node # flow) of Some node \<Rightarrow> Some node | None \<Rightarrow> bt_get nodes k)"
    for k using IH(4) [of k] none by (cases "nd_id node = k") (auto split: option.splits)
  then show ?case using IH(1-3) fresh new by auto
qed simp

lemma nodes_of_flow:
  assumes "insert_nodes flow [] = Inr nodes"
  shows "bt_wf nodes" "distinct (map nd_id flow)" "set nodes = (\<lambda>node. (nd_id node, node)) ` set flow"
proof -
  have N: "bt_wf nodes" "distinct (map nd_id flow)"
      "\<And>k. bt_get nodes k = find (\<lambda>node. nd_id node = k) flow"
    using insert_nodes_Inr [OF assms] by (auto split: option.splits)
  have "(k, node) \<in> set nodes \<longleftrightarrow> node \<in> set flow \<and> nd_id node = k" for k node
  proof -
    have "find (\<lambda>node. nd_id node = k) flow = Some node \<longleftrightarrow> node \<in> set flow \<and> nd_id node = k"
      using N(2) by (induction flow) auto
    then show ?thesis using bt_get_Some_iff [OF N(1)] N(3) by metis
  qed
  then show "bt_wf nodes" "distinct (map nd_id flow)" "set nodes = (\<lambda>node. (nd_id node, node)) ` set flow"
    using N by auto
qed

fun exhausted_targets :: "exhausted_action \<Rightarrow> string set" where
  "exhausted_targets (ExhaustedRoute to) = {to}"
| "exhausted_targets _ = {}"

fun on_fail_targets :: "on_fail \<Rightarrow> string set" where
  "on_fail_targets (OnFailRepair repair recheck n action) = {repair, recheck} \<union> exhausted_targets action"
| "on_fail_targets (OnFailRegenerate n action) = exhausted_targets action"
| "on_fail_targets (OnFailRoute to) = {to}"
| "on_fail_targets _ = {}"

lemma validate_on_fail_refs_Inr:
  "validate_on_fail_refs node nodes = Inr () \<longleftrightarrow>
   (\<forall>on_fail. nd_on_fail node = Some on_fail \<longrightarrow> on_fail_targets on_fail \<subseteq> set (bt_keys nodes))"
  by (auto simp: validate_on_fail_refs_def validate_on_fail_ref_def validate_on_exhausted_ref_def and_then_Inr_iff
      ensure_def bt_contains_key_iff split: option.splits on_fail.splits exhausted_action.splits simp del: set_map)

lemma validate_node_Inr:
  assumes "validate_node m nodes node = Inr ()"
  shows "set (nd_needs node) \<subseteq> set (bt_keys nodes)"
    and "nd_on_fail node = Some on_fail \<Longrightarrow> on_fail_targets on_fail \<subseteq> set (bt_keys nodes)"
    and "nd_kind node = ''foreach'' \<Longrightarrow> \<exists>subflow block. param_str node ''subflow'' = Some subflow
      \<and> bt_get (mf_blocks m) subflow = Some block \<and> (\<forall>child\<in>set block. nd_needs child = [])"
proof -
  have v: "for_each (\<lambda>need. ensure (bt_contains_key nodes need)
       (''node `'' @ nd_id node @ ''` depends on unknown node `'' @ need @ ''`'')) (nd_needs node) = Inr ()"
      "validate_on_fail_refs node nodes = Inr ()" "validate_foreach m node = Inr ()"
    using assms unfolding validate_node_def and_then_Inr_iff by simp_all
  show "set (nd_needs node) \<subseteq> set (bt_keys nodes)"
    using v(1) unfolding for_each_Inr_iff by (auto simp: ensure_def bt_contains_key_iff split: if_splits simp del: set_map)
  show "on_fail_targets on_fail \<subseteq> set (bt_keys nodes)" if "nd_on_fail node = Some on_fail"
    using v(2) that unfolding validate_on_fail_refs_Inr by blast
  show "\<exists>subflow block. param_str node ''subflow'' = Some subflow
      \<and> bt_get (mf_blocks m) subflow = Some block \<and> (\<forall>child\<in>set block. nd_needs child = [])" if "nd_kind node = ''foreach''"
    using v(3) unfolding validate_foreach_def if_P [OF that] and_then_Inr_iff for_each_Inr_iff ensure_def
    by (auto simp: result_simps split: if_splits)
qed

lemma build_cases:
  assumes "build m = Inr g"
  obtains flow where "flow_with_implicit_dependencies m = Inr flow" "distinct (map nd_id flow)"
    "set (g_nodes g) = (\<lambda>node. (nd_id node, node)) ` set flow" "graph_wf (g_nodes g)"
    "topo_sort (g_nodes g) = Inr (g_order g)" "\<forall>node\<in>set flow. validate_node m (g_nodes g) node = Inr ()"
proof -
  obtain flow nodes order where *: "flow_with_implicit_dependencies m = Inr flow" "insert_nodes flow [] = Inr nodes"
      "for_each (\<lambda>(key, node). validate_node m nodes node) nodes = Inr ()" "topo_sort nodes = Inr order"
      "g = \<lparr>g_nodes = nodes, g_order = order\<rparr>"
    using assms by (auto simp: build_def and_then_Inr_iff)
  note N = nodes_of_flow [OF *(2)]
  have v: "validate_node m nodes node = Inr ()" if "node \<in> set flow" for node
    using *(3) that unfolding for_each_Inr_iff N(3) by auto
  have "set (nd_needs node) \<subseteq> set (bt_keys nodes)" if "node \<in> set flow" for node
    using validate_node_Inr(1) [OF v [OF that]] .
  then have "graph_wf nodes"
    unfolding graph_wf_def using N(1) by (simp add: N(3) del: set_map)
  then show ?thesis using that * N v by simp
qed

section \<open>The default order\<close>

lemma topological_chain:
  assumes "topological nodes order" "distinct ids" "set ids = set (bt_keys nodes)"
    "\<And>i. 0 < i \<Longrightarrow> i < length ids \<Longrightarrow> ids ! (i - 1) \<in> set (needs_of nodes (ids ! i))"
  shows "order = ids"
proof -
  have O: "distinct order" "set order = set ids" using assms(1,3) by (simp_all add: topological_def)
  then have len: "length order = length ids" using assms(2) by (metis distinct_card)
  have "take k order = take k ids" if "k \<le> length ids" for k
    using that
  proof (induction k)
    case (Suc k)
    then have k: "k < length ids" "k < length order" "take k order = take k ids" using len by simp_all
    then obtain j where j: "j < length ids" "order ! k = ids ! j"
      using O(2) by (metis in_set_conv_nth nth_mem)
    have "\<not> j < k"
    proof
      assume "j < k"
      then have "order ! k = order ! j" using j(2) k(3) by (metis nth_take)
      then show False using O(1) \<open>j < k\<close> k(2) by (simp add: nth_eq_iff_index_eq)
    qed
    moreover have "\<not> k < j"
    proof
      assume "k < j"
      have "order = take k order @ order ! k # drop (Suc k) order" using k(2) by (rule id_take_nth_drop)
      then have "set (needs_of nodes (order ! k)) \<subseteq> set (take k order)"
        using assms(1) unfolding topological_def by blast
      then have "ids ! (j - 1) \<in> set (take k ids)" using assms(4) [of j] j \<open>k < j\<close> k(3) by auto
      then obtain i where "i < k" "ids ! (j - 1) = ids ! i" by (auto simp: in_set_conv_nth)
      then show False using assms(2) j(1) \<open>k < j\<close> by (simp add: nth_eq_iff_index_eq)
    qed
    ultimately have "j = k" by simp
    then show ?case using j k by (simp add: take_Suc_conv_app_nth)
  qed simp
  from this [of "length ids"] show ?thesis using len by simp
qed

lemma chain_flow_nth:
  "i < length flow \<Longrightarrow> chain_flow None flow ! i =
    (if 0 < i \<and> nd_needs (flow ! i) = [] then (flow ! i)\<lparr>nd_needs := [nd_id (flow ! (i - 1))]\<rparr> else flow ! i)"
  by (simp add: chain_flow_def nth_enumerate_eq)

lemma chain_flow_ids: "map nd_id (chain_flow r flow) = map nd_id flow"
  by (rule nth_equalityI) (auto simp: chain_flow_def nth_enumerate_eq)

definition plain_node :: "string \<Rightarrow> string list \<Rightarrow> node_def" where
  "plain_node nid needs = \<lparr>nd_id = nid, nd_kind = ''write'', nd_needs = needs, nd_on_deps = AllSucceeded,
     nd_on_fail = None, nd_params = []\<rparr>"

definition sample_manifest :: manifest where
  "sample_manifest = \<lparr>mf_flow = [plain_node ''a'' [], plain_node ''b'' []], mf_parallel = [], mf_blocks = []\<rparr>"

definition sample_nodes :: "(string, node_def) btree" where
  "sample_nodes = [(''a'', plain_node ''a'' []), (''b'', plain_node ''b'' [''a''])]"

lemma sample_build: "build sample_manifest = Inr \<lparr>g_nodes = sample_nodes, g_order = [''a'', ''b'']\<rparr>"
proof -
  have flow: "flow_with_implicit_dependencies sample_manifest = Inr [plain_node ''a'' [], plain_node ''b'' [''a'']]"
    by (simp add: flow_with_implicit_dependencies_def parallel_indices_def chain_flow_def sample_manifest_def
        plain_node_def)
  have ins: "insert_nodes [plain_node ''a'' [], plain_node ''b'' [''a'']] [] = Inr sample_nodes"
    by (simp add: sample_nodes_def plain_node_def bt_contains_key_def)
  have valid: "for_each (\<lambda>(key, node). validate_node sample_manifest sample_nodes node) sample_nodes = Inr ()"
    by (simp add: sample_nodes_def plain_node_def validate_node_def validate_on_fail_refs_def validate_foreach_def
        bt_contains_key_def)
  have edges: "count_edges sample_nodes = ([(''a'', 0), (''b'', 1)], [(''a'', [''b''])])"
    by (simp add: count_edges_def count_need_def sample_nodes_def plain_node_def bt_collect_def bt_extend_def)
  have "topo_sort sample_nodes = Inr [''a'', ''b'']"
    unfolding topo_sort_def edges by (simp add: bt_modify_def sample_nodes_def)
  then show ?thesis unfolding build_def by (simp only: flow ins valid and_then.simps)
qed

section \<open>Properties\<close>

text \<open>C10: On a graph whose nodes are keyed by their id and need only known nodes, \<open>topo_sort\<close> ends
  without an arithmetic overflow, succeeds exactly when the dependency relation is acyclic, and
  then lists every node once, each after everything it needs.\<close>

theorem topo_sort_correct:
  assumes "graph_wf nodes"
  shows "(acyclic (depends nodes) \<longleftrightarrow> (\<exists>order. topo_sort nodes = Inr order))
    \<and> (\<forall>order. topo_sort nodes = Inr order \<longrightarrow> topological nodes order)"
  using assms
proof (cases rule: topo_sort_cases)
  case (Sorted order)
  then show ?thesis using topological_acyclic by auto
next
  case (Cycle e)
  then show ?thesis by simp
qed

theorem topo_sort_correct_witness:
  "\<exists>order. topo_sort [(''a'', \<lparr>nd_id = ''a'', nd_kind = ''x'', nd_needs = [], nd_on_deps = AllSucceeded,
      nd_on_fail = None, nd_params = []\<rparr>)] = Inr order"
proof -
  let ?nodes = "[(''a'', \<lparr>nd_id = ''a'', nd_kind = ''x'', nd_needs = [], nd_on_deps = AllSucceeded,
      nd_on_fail = None, nd_params = []\<rparr>)]"
  have "graph_wf ?nodes" by (simp add: graph_wf_def bt_wf_def)
  moreover have "depends ?nodes = {}" by (auto simp: depends_def needs_of_def)
  ultimately show ?thesis using topo_sort_correct [of ?nodes] by (simp add: acyclic_def)
qed

text \<open>C19: A graph that \<open>build\<close> accepts has one node per flow entry under its own id, its order is a
  topological order of the dependencies (the implicit ones included), every failure route, repair
  and recheck target exists, and every \<open>foreach\<close> node names a block whose children declare no
  dependencies.\<close>

theorem build_sound:
  assumes "build m = Inr g"
  shows "\<exists>flow. flow_with_implicit_dependencies m = Inr flow \<and> distinct (map nd_id flow)
    \<and> set (g_nodes g) = (\<lambda>node. (nd_id node, node)) ` set flow \<and> topological (g_nodes g) (g_order g)
    \<and> (\<forall>node\<in>set flow.
         (\<forall>on_fail. nd_on_fail node = Some on_fail \<longrightarrow> on_fail_targets on_fail \<subseteq> set (g_order g))
         \<and> (nd_kind node = ''foreach'' \<longrightarrow> (\<exists>subflow block. param_str node ''subflow'' = Some subflow
              \<and> bt_get (mf_blocks m) subflow = Some block \<and> (\<forall>child\<in>set block. nd_needs child = []))))"
proof -
  obtain flow where b: "flow_with_implicit_dependencies m = Inr flow" "distinct (map nd_id flow)"
    "set (g_nodes g) = (\<lambda>node. (nd_id node, node)) ` set flow" "graph_wf (g_nodes g)"
    "topo_sort (g_nodes g) = Inr (g_order g)" "\<forall>node\<in>set flow. validate_node m (g_nodes g) node = Inr ()"
    using build_cases [OF assms] .
  have t: "topological (g_nodes g) (g_order g)"
    using b(4) by (cases rule: topo_sort_cases) (use b(5) in auto)
  then have keys: "set (bt_keys (g_nodes g)) = set (g_order g)" by (simp add: topological_def)
  show ?thesis
    unfolding keys [symmetric]
  proof (intro exI [of _ flow] conjI ballI allI impI b(1-3) t)
    fix node
    assume "node \<in> set flow"
    then have v: "validate_node m (g_nodes g) node = Inr ()" using b(6) by blast
    show "on_fail_targets on_fail \<subseteq> set (bt_keys (g_nodes g))" if "nd_on_fail node = Some on_fail" for on_fail
      by (rule validate_node_Inr(2) [OF v that])
    show "\<exists>subflow block. param_str node ''subflow'' = Some subflow
        \<and> bt_get (mf_blocks m) subflow = Some block \<and> (\<forall>child\<in>set block. nd_needs child = [])" if "nd_kind node = ''foreach''"
      by (rule validate_node_Inr(3) [OF v that])
  qed
qed

theorem build_sound_witness:
  "\<exists>flow. flow_with_implicit_dependencies sample_manifest = Inr flow \<and> topological sample_nodes [''a'', ''b'']"
proof -
  have "g_nodes \<lparr>g_nodes = sample_nodes, g_order = [''a'', ''b'']\<rparr> = sample_nodes"
    "g_order \<lparr>g_nodes = sample_nodes, g_order = [''a'', ''b'']\<rparr> = [''a'', ''b'']" by simp_all
  then show ?thesis using build_sound [OF sample_build] by metis
qed

text \<open>C33: A flow that declares no dependencies and no parallel group runs in the order in which it is
  written: the topological order \<open>build\<close> computes is the list of its node ids.\<close>

theorem sequential_flow_order:
  assumes "build m = Inr g" "mf_parallel m = []" "\<forall>node\<in>set (mf_flow m). nd_needs node = []"
  shows "g_order g = map nd_id (mf_flow m)"
proof -
  obtain flow where b: "flow_with_implicit_dependencies m = Inr flow" "distinct (map nd_id flow)"
    "set (g_nodes g) = (\<lambda>node. (nd_id node, node)) ` set flow" "graph_wf (g_nodes g)"
    "topo_sort (g_nodes g) = Inr (g_order g)" "\<forall>node\<in>set flow. validate_node m (g_nodes g) node = Inr ()"
    using build_cases [OF assms(1)] .
  have flow: "flow = chain_flow None (mf_flow m)"
    using b(1) assms(2) by (simp add: flow_with_implicit_dependencies_def parallel_indices_def)
  have t: "topological (g_nodes g) (g_order g)"
    using b(4) by (cases rule: topo_sort_cases) (use b(5) in auto)
  have "g_order g = map nd_id flow"
  proof (rule topological_chain [OF t b(2)])
    show "set (map nd_id flow) = set (bt_keys (g_nodes g))" by (simp add: b(3) image_image)
    fix i
    assume i: "0 < i" "i < length (map nd_id flow)"
    then have "(nd_id (flow ! i), flow ! i) \<in> set (g_nodes g)" unfolding b(3) by auto
    then have "bt_get (g_nodes g) (nd_id (flow ! i)) = Some (flow ! i)"
      using b(4) by (simp add: graph_wf_def bt_get_Some_iff)
    moreover have "i < length (mf_flow m)" using i by (simp add: flow chain_flow_def)
    moreover have "nd_id (flow ! (i - 1)) = nd_id (mf_flow m ! (i - 1))"
      using calculation(2) chain_flow_ids [of None "mf_flow m"] unfolding flow
      by (metis length_map less_imp_diff_less nth_map)
    ultimately show "map nd_id flow ! (i - 1) \<in> set (needs_of (g_nodes g) (map nd_id flow ! i))"
      using i assms(3) by (simp add: needs_of_def flow chain_flow_nth)
  qed
  then show ?thesis by (simp add: flow chain_flow_ids)
qed

theorem sequential_flow_order_witness: "[''a'', ''b''] = map nd_id (mf_flow sample_manifest)"
  using sequential_flow_order [OF sample_build] by (simp add: sample_manifest_def plain_node_def)

text \<open>C20: Whether a node runs or is skipped because of its dependencies: it is never both, and once
  every dependency has ended it is exactly one of the two, whatever the policy.\<close>

theorem dependency_decision:
  "\<not> (needs_satisfied node states \<and> should_skip_by_dependencies node states \<noteq> None)
   \<and> (list_all (is_terminal states) (nd_needs node) \<longrightarrow>
        (needs_satisfied node states \<longleftrightarrow> should_skip_by_dependencies node states = None))"
proof -
  have entry: "dependency_failure_entry states need = None \<longleftrightarrow> \<not> (is_skipped states need \<or> is_failed states need)" for need
    by (auto simp: dependency_failure_entry_def is_skipped_def is_failed_def split: option.splits node_state.splits)
  have fail: "dependency_failure node states code = None \<longleftrightarrow>
      (\<forall>need\<in>set (nd_needs node). \<not> (is_skipped states need \<or> is_failed states need))" for code
    by (auto simp: dependency_failure_def Let_def map_filter_def filter_empty_conv entry)
  have excl: "\<not> (is_success states need \<and> (is_skipped states need \<or> is_failed states need))"
      "\<not> (is_skipped states need \<and> is_failed states need)" for need
    by (auto simp: is_success_def is_skipped_def is_failed_def split: option.splits node_state.splits)
  show ?thesis
    using excl
    by (cases "nd_on_deps node"; cases "nd_needs node = []")
       (auto simp: needs_satisfied_def should_skip_by_dependencies_def fail list_all_iff list_ex_iff is_terminal_def
          simp del: not_None_eq)
qed

theorem dependency_decision_witness:
  "let node = \<lparr>nd_id = ''b'', nd_kind = ''x'', nd_needs = [''a''], nd_on_deps = AllSucceeded,
      nd_on_fail = None, nd_params = []\<rparr> in
   needs_satisfied node [(''a'', NodeSuccess)] \<and> should_skip_by_dependencies node [(''a'', NodeSuccess)] = None"
  using dependency_decision [of "\<lparr>nd_id = ''b'', nd_kind = ''x'', nd_needs = [''a''], nd_on_deps = AllSucceeded,
      nd_on_fail = None, nd_params = []\<rparr>" "[(''a'', NodeSuccess)]"]
  by (simp add: Let_def needs_satisfied_def is_success_def is_terminal_def)

end
