(* ===== verification/PathPolicy.thy ===== *)
theory PathPolicy
  imports BTree
begin

text \<open>
  Portable relative paths (\<open>crates/policy/src/path.rs\<close>) and the resolution of package paths
  (\<open>crates/contract/src/path.rs\<close>).

  Unicode normalization and case folding are third-party code: the collision key of a path is the
  parameter \<open>ck\<close>. So is the file system: \<open>canon\<close> canonicalizes an absolute path, given as the
  list of its components. \<open>sort_unstable_by\<close> is \<open>sort_key\<close>: the two differ only on entries with
  equal keys, which are refused with one and the same error.
\<close>

section \<open>Path components\<close>

abbreviation components_of :: "string \<Rightarrow> string list" where
  "components_of p \<equiv> split_char (\<lambda>c. c = CHR ''/'') p"

definition WINDOWS_RESERVED_STEMS :: "string list" where
  "WINDOWS_RESERVED_STEMS =
     [''CON'', ''PRN'', ''AUX'', ''NUL'', ''CONIN$'', ''CONOUT$'', ''COM1'', ''COM2'', ''COM3'', ''COM4'', ''COM5'',
      ''COM6'', ''COM7'', ''COM8'', ''COM9'', ''LPT1'', ''LPT2'', ''LPT3'', ''LPT4'', ''LPT5'', ''LPT6'', ''LPT7'',
      ''LPT8'', ''LPT9'', ''COM'' @ [CHR 0xB9], ''COM'' @ [CHR 0xB2], ''COM'' @ [CHR 0xB3],
      ''LPT'' @ [CHR 0xB9], ''LPT'' @ [CHR 0xB2], ''LPT'' @ [CHR 0xB3]]"

definition has_any :: "string \<Rightarrow> string \<Rightarrow> bool" where
  "has_any part chars \<longleftrightarrow> list_ex (\<lambda>c. c \<in> set chars) part"

definition is_control_byte :: "char \<Rightarrow> bool" where
  "is_control_byte c \<longleftrightarrow> code_point c < (0x20 :: nat) \<or> code_point c = (0x7f :: nat)"

definition is_portable_component :: "string \<Rightarrow> bool \<Rightarrow> bool" where
  "is_portable_component part wildcards_allowed =
     (if part = [] \<or> part = ''.'' \<or> part = ''..'' \<or> has_any part '':''
         \<or> last part \<in> {CHR ''.'', CHR '' ''} \<or> list_ex is_control_byte part
         \<or> has_any part [CHR ''<'', CHR ''>'', CHR 0x22, CHR ''|'']
         \<or> (\<not> wildcards_allowed \<and> has_any part ''?*'')
      then False
      else \<not> list_ex (eq_ignore_ascii_case (hd (split_char (\<lambda>c. c = CHR ''.'') part))) WINDOWS_RESERVED_STEMS)"

definition is_safe_relative :: "string \<Rightarrow> bool \<Rightarrow> bool" where
  "is_safe_relative path w \<longleftrightarrow>
     CHR 0x5C \<notin> set path \<and> list_all (\<lambda>p. is_portable_component p w) (components_of path)"

definition is_safe_relative_path :: "string \<Rightarrow> bool" where
  "is_safe_relative_path path \<longleftrightarrow> is_safe_relative path False"

definition is_safe_glob_pattern :: "string \<Rightarrow> bool" where
  "is_safe_glob_pattern pat \<longleftrightarrow> is_safe_relative pat True"

definition is_safe_path_component :: "string \<Rightarrow> bool" where
  "is_safe_path_component path \<longleftrightarrow> is_safe_relative_path path \<and> CHR ''/'' \<notin> set path"



definition normalize_path_prefix :: "string \<Rightarrow> string option" where
  "normalize_path_prefix pre =
     (let normalized = (case strip_suffix ''/'' pre of Some s \<Rightarrow> s | None \<Rightarrow> pre)
      in if is_safe_relative_path normalized then Some normalized else None)"

definition path_is_within_prefix :: "string \<Rightarrow> string \<Rightarrow> bool" where
  "path_is_within_prefix path pre =
     (case normalize_path_prefix pre of
        None \<Rightarrow> False
      | Some pre \<Rightarrow> is_safe_relative_path path
          \<and> (case strip_prefix pre path of Some s \<Rightarrow> s = [] \<or> starts_with s ''/'' | None \<Rightarrow> False))"

section \<open>Path sets\<close>

type_synonym path_entry = "string \<times> string \<times> bool"

abbreviation key_components :: "path_entry \<Rightarrow> string list" where
  "key_components e \<equiv> components_of (fst e)"

abbreviation spelled_components :: "path_entry \<Rightarrow> string list" where
  "spelled_components e \<equiv> components_of (fst (snd e))"

abbreviation is_directory :: "path_entry \<Rightarrow> bool" where
  "is_directory e \<equiv> snd (snd e)"

definition alias_pair :: "path_entry \<Rightarrow> path_entry \<Rightarrow> bool" where
  "alias_pair l r =
     list_ex (\<lambda>((_, left), (_, right)). left \<noteq> right)
       (takeWhile (\<lambda>((left, _), (right, _)). left = right)
         (zip (zip (key_components l) (spelled_components l)) (zip (key_components r) (spelled_components r))))"

definition rsplit_once_char :: "char \<Rightarrow> string \<Rightarrow> (string \<times> string) option" where
  "rsplit_once_char d s = map_option (\<lambda>(b, a). (rev a, rev b)) (split_once_char d (rev s))"

definition search_entry :: "path_entry list \<Rightarrow> string \<Rightarrow> path_entry option" where
  \<comment> \<open>\<open>binary_search_by\<close> on entries that are sorted by their key and have distinct keys\<close>
  "search_entry paths p = find (\<lambda>e. key_components e = components_of p) paths"

lemma rsplit_once_char_Some_iff:
  "rsplit_once_char d s = Some (a, b) \<longleftrightarrow> s = a @ d # b \<and> d \<notin> set b"
proof -
  have "rsplit_once_char d s = Some (a, b) \<longleftrightarrow> split_once_char d (rev s) = Some (rev b, rev a)"
    unfolding rsplit_once_char_def by (cases "split_once_char d (rev s)") auto
  also have "\<dots> \<longleftrightarrow> rev s = rev b @ d # rev a \<and> d \<notin> set b" by (simp add: split_once_char_Some_iff)
  also have "rev s = rev b @ d # rev a \<longleftrightarrow> s = a @ d # b"
    by (metis append.assoc append_Cons append_Nil rev.simps(2) rev_append rev_rev_ident)
  finally show ?thesis .
qed

function check_parents :: "path_entry list \<Rightarrow> string \<Rightarrow> string + unit" where
  "check_parents paths parent =
     (case rsplit_once_char (CHR ''/'') parent of
        None \<Rightarrow> Inr ()
      | Some (p, _) \<Rightarrow>
          (case search_entry paths p of
             Some e \<Rightarrow> if \<not> is_directory e then Inl ''path set uses a file as a directory'' else check_parents paths p
           | None \<Rightarrow> check_parents paths p))"
  by pat_completeness auto
termination
  by (relation "measure (\<lambda>(paths, parent). length parent)") (auto simp: rsplit_once_char_Some_iff)

declare check_parents.simps [simp del]

definition validate_path_set_inner :: "(string \<Rightarrow> string) \<Rightarrow> (string \<times> bool) list \<Rightarrow> bool \<Rightarrow> string + unit" where
  "validate_path_set_inner ck entries tree =
     (let paths = map (\<lambda>(p, d). (ck p, p, d)) entries
      in and_then (ensure (list_all (\<lambda>(_, p, _). is_safe_relative_path p) paths) ''unsafe or colliding path set'') (\<lambda>_.
         let paths = sort_key key_components paths
         in and_then (for_each (\<lambda>(l, r).
              ensure (\<not> (fst l = fst r \<or> tree \<and> alias_pair l r)) ''unsafe or colliding path set'')
              (zip paths (tl paths))) (\<lambda>_.
            for_each (\<lambda>e. check_parents paths (fst e)) paths)))"

definition validate_path_set :: "(string \<Rightarrow> string) \<Rightarrow> (string \<times> bool) list \<Rightarrow> string + unit" where
  "validate_path_set ck entries = validate_path_set_inner ck entries False"

definition validate_path_tree_set :: "(string \<Rightarrow> string) \<Rightarrow> (string \<times> bool) list \<Rightarrow> string + unit" where
  "validate_path_tree_set ck entries = validate_path_set_inner ck entries True"

section \<open>Package paths\<close>



section \<open>Components and separators\<close>

lemma split_char_append_sep: "P d \<Longrightarrow> split_char P (a @ d # s) = split_char P a @ split_char P s"
proof (induction a)
  case (Cons c a)
  then show ?case by (cases "split_char P a") auto
qed simp

lemma components_inject [simp]: "components_of p = components_of q \<longleftrightarrow> p = q"
  by (metis join_split_char)

lemma components_rsplit: "rsplit_once_char (CHR ''/'') s = Some (a, b) \<Longrightarrow> components_of s = components_of a @ [b]"
  by (auto simp: rsplit_once_char_Some_iff split_char_append_sep intro: split_char_id)

lemma components_rsplit_None: "rsplit_once_char (CHR ''/'') s = None \<Longrightarrow> components_of s = [s]"
  by (rule split_char_id) (auto simp: rsplit_once_char_def split_once_char_None_iff)

lemma prefix_components_iff:
  "prefix (components_of q) (components_of p) \<longleftrightarrow> p = q \<or> (\<exists>r. p = q @ CHR ''/'' # r)"
proof
  assume "prefix (components_of q) (components_of p)"
  then obtain zs where zs: "components_of p = components_of q @ zs" by (auto elim: prefixE)
  show "p = q \<or> (\<exists>r. p = q @ CHR ''/'' # r)"
  proof (cases "zs = []")
    case False
    have "CHR ''/'' \<notin> set w" if "w \<in> set zs" for w
      using that split_char_no_sep [of w "\<lambda>c. c = CHR ''/''" p "CHR ''/''"] unfolding zs by auto
    then have "components_of (q @ CHR ''/'' # join_with ''/'' zs) = components_of q @ zs"
      using False by (simp add: split_char_append_sep split_join_char)
    then have "components_of p = components_of (q @ CHR ''/'' # join_with ''/'' zs)" using zs by simp
    then have "p = q @ CHR ''/'' # join_with ''/'' zs" by (simp only: components_inject)
    then show ?thesis by blast
  qed (use zs in simp)
qed (auto simp: split_char_append_sep)

section \<open>Sorted entries\<close>

lemma adjacent_distinct:
  fixes f :: "'a \<Rightarrow> 'b::linorder"
  assumes "sorted (map f xs)"
  shows "(\<forall>(l, r)\<in>set (zip xs (tl xs)). f l \<noteq> f r) \<longleftrightarrow> distinct (map f xs)"
  using assms
proof (induction xs rule: induct_list012)
  case (3 x y xs)
  have "f x \<noteq> f y \<Longrightarrow> f x < f z" if "z \<in> set (y # xs)" for z
    using 3(3) that by (auto simp: less_le)
  then have "f x \<noteq> f y \<longleftrightarrow> f x \<notin> f ` set (y # xs)" by force
  then show ?case using 3 by simp
qed auto

lemma sorted_between:
  fixes a b c :: "'a::linorder list"
  assumes "a \<le> b" "b \<le> c" "take m a = take m c" "m \<le> length a" "m \<le> length c"
  shows "take m b = take m a \<and> m \<le> length b"
  using assms
proof (induction m arbitrary: a b c)
  case (Suc m)
  then obtain x a' y c' where ac: "a = x # a'" "c = y # c'" by (metis Suc_le_length_iff)
  have "b \<noteq> []" using Suc.prems(1) ac by auto
  then obtain z b' where b: "b = z # b'" by (cases b) auto
  have "x = y" using Suc.prems(3) ac by simp
  then have "z = x" "a' \<le> b'" "b' \<le> c'" using Suc.prems(1,2) ac b by auto
  then show ?case using Suc.IH [of a' b' c'] Suc.prems ac b \<open>x = y\<close> by simp
qed simp

definition agree :: "'k list \<Rightarrow> 's list \<Rightarrow> 'k list \<Rightarrow> 's list \<Rightarrow> bool" where
  \<comment> \<open>a common prefix of the keys is spelled the same way\<close>
  "agree kl sl kr sr \<longleftrightarrow> (\<forall>n. take n kl = take n kr \<longrightarrow> take n sl = take n sr)"

lemma alias_agree:
  assumes "length kl = length sl" "length kr = length sr"
  shows "list_ex (\<lambda>((_, left), (_, right)). left \<noteq> right)
           (takeWhile (\<lambda>((left, _), (right, _)). left = right) (zip (zip kl sl) (zip kr sr)))
         \<longleftrightarrow> \<not> agree kl sl kr sr"
  using assms
proof (induction kl sl arbitrary: kr sr rule: list_induct2)
  case Nil
  then show ?case by (cases kr) (auto simp: agree_def take_Cons split: nat.splits)
next
  case (Cons k kl s sl)
  show ?case
  proof (cases kr)
    case Nil
    then show ?thesis using Cons.prems by (auto simp: agree_def take_Cons split: nat.splits)
  next
    case (Cons k' kr')
    then obtain s' sr' where sr: "sr = s' # sr'" "length kr' = length sr'"
      using Cons.prems by (cases sr) auto
    have "agree (k # kl) (s # sl) (k' # kr') (s' # sr') \<longleftrightarrow> (k = k' \<longrightarrow> s = s' \<and> agree kl sl kr' sr')"
    proof
      assume a: "agree (k # kl) (s # sl) (k' # kr') (s' # sr')"
      have step: "k = k' \<Longrightarrow> take n kl = take n kr' \<Longrightarrow> s = s' \<and> take n sl = take n sr'" for n
        using spec [OF a [unfolded agree_def], of "Suc n"] by simp
      show "k = k' \<longrightarrow> s = s' \<and> agree kl sl kr' sr'"
        using step [of 0] step by (simp add: agree_def)
    next
      assume "k = k' \<longrightarrow> s = s' \<and> agree kl sl kr' sr'"
      then show "agree (k # kl) (s # sl) (k' # kr') (s' # sr')"
        by (auto simp: agree_def take_Cons split: nat.splits)
    qed
    then show ?thesis using Cons.IH [OF sr(2)] Cons sr by auto
  qed
qed

section \<open>What the checks decide\<close>

lemma check_parents_iff:
  "check_parents paths parent = Inr () \<longleftrightarrow>
     (\<forall>q. q \<noteq> [] \<and> strict_prefix q (components_of parent) \<longrightarrow>
        (\<forall>e. find (\<lambda>e. key_components e = q) paths = Some e \<longrightarrow> is_directory e))"
proof (induction paths parent rule: check_parents.induct)
  case (1 paths parent)
  show ?case
  proof (cases "rsplit_once_char (CHR ''/'') parent")
    case None
    then have "strict_prefix q (components_of parent) \<Longrightarrow> q = []" for q
      by (auto simp: components_rsplit_None strict_prefix_def prefix_Cons)
    then show ?thesis using None by (simp add: check_parents.simps) blast
  next
    case (Some pb)
    obtain p b where pb: "pb = (p, b)" by fastforce
    define settled where "settled q \<longleftrightarrow>
        (\<forall>e. find (\<lambda>e. key_components e = q) paths = Some e \<longrightarrow> is_directory e)" for q
    have found: "(\<forall>e. search_entry paths p = Some e \<longrightarrow> is_directory e) \<longleftrightarrow> settled (components_of p)"
      by (simp only: search_entry_def settled_def)
    have IH: "check_parents paths p = Inr () \<longleftrightarrow> (\<forall>q. q \<noteq> [] \<and> strict_prefix q (components_of p) \<longrightarrow> settled q)"
      if "settled (components_of p)"
      using 1 [OF Some pb [symmetric]] found that unfolding settled_def [symmetric]
      by (cases "search_entry paths p") auto
    have "strict_prefix q (components_of parent) \<longleftrightarrow> q = components_of p \<or> strict_prefix q (components_of p)" for q
      unfolding components_rsplit [OF Some [unfolded pb]] by (auto simp: strict_prefix_def)
    then have ancestors: "(\<forall>q. q \<noteq> [] \<and> strict_prefix q (components_of parent) \<longrightarrow> settled q) \<longleftrightarrow>
        settled (components_of p) \<and> (\<forall>q. q \<noteq> [] \<and> strict_prefix q (components_of p) \<longrightarrow> settled q)"
      using split_char_not_Nil [of "\<lambda>c. c = CHR ''/''" p] by (simp only: conj_disj_distribL imp_conjL) metis
    have "check_parents paths parent = Inr () \<longleftrightarrow> settled (components_of p) \<and> check_parents paths p = Inr ()"
      unfolding found [symmetric] by (subst check_parents.simps) (auto simp: Some pb split: option.splits)
    then show ?thesis unfolding settled_def [symmetric] ancestors using IH by iprover
  qed
qed

lemma find_distinct:
  assumes "distinct (map f xs)"
  shows "find (\<lambda>x. f x = q) xs = Some e \<longleftrightarrow> e \<in> set xs \<and> f e = q"
  using assms by (induction xs) auto

lemma for_each_parents_iff:
  assumes "distinct (map key_components paths)"
  shows "for_each (\<lambda>e. check_parents paths (fst e)) paths = Inr () \<longleftrightarrow>
    (\<forall>f\<in>set paths. \<forall>e\<in>set paths. strict_prefix (key_components f) (key_components e) \<longrightarrow> is_directory f)"
proof -
  have "(\<forall>x\<in>set paths. \<forall>q. q \<noteq> [] \<and> strict_prefix q (key_components x) \<longrightarrow>
          (\<forall>e. e \<in> set paths \<and> key_components e = q \<longrightarrow> is_directory e)) \<longleftrightarrow>
        (\<forall>f\<in>set paths. \<forall>e\<in>set paths. strict_prefix (key_components f) (key_components e) \<longrightarrow> is_directory f)"
    (is "?l \<longleftrightarrow> ?r")
  proof
    assume l: ?l
    show ?r
    proof (intro ballI impI)
      fix f e
      assume "f \<in> set paths" "e \<in> set paths" "strict_prefix (key_components f) (key_components e)"
      then show "is_directory f"
        using l [rule_format, of e "key_components f" f] split_char_not_Nil by (simp only: simp_thms)
    qed
  next
    assume r: ?r
    show ?l
    proof (intro ballI allI impI)
      fix x q e
      assume x: "x \<in> set paths" "q \<noteq> [] \<and> strict_prefix q (key_components x)"
        and e: "e \<in> set paths \<and> key_components e = q"
      show "is_directory e" using r [rule_format, of e x] x e by (simp only: simp_thms)
    qed
  qed
  then show ?thesis unfolding for_each_Inr_iff check_parents_iff find_distinct [OF assms] .
qed

lemma neighbours: "(l, r) \<in> set (zip xs (tl xs)) \<Longrightarrow> l \<in> set xs \<and> r \<in> set xs"
  by (cases xs) (auto dest: set_zip_leftD set_zip_rightD)

lemma sorted_wrt_neighbours: "sorted_wrt R xs \<Longrightarrow> \<forall>(l, r)\<in>set (zip xs (tl xs)). R l r"
  by (induction xs rule: induct_list012) auto

lemma sorted_wrt_all:
  assumes "\<And>l. R l l" "\<And>l r. R l r \<Longrightarrow> R r l"
  shows "sorted_wrt R xs \<longleftrightarrow> (\<forall>l\<in>set xs. \<forall>r\<in>set xs. R l r)"
  using assms by (induction xs) auto

lemma adjacent_agree:
  assumes "sorted (map key xs)" "\<forall>x\<in>set xs. length (key x) = length (spelled x)"
    "\<forall>(l, r)\<in>set (zip xs (tl xs)). agree (key l) (spelled l) (key r) (spelled r)"
  shows "sorted_wrt (\<lambda>l r. agree (key l) (spelled l) (key r) (spelled r)) xs"
  using assms
proof (induction xs rule: induct_list012)
  case (3 x y xs)
  have xy: "agree (key x) (spelled x) (key y) (spelled y)" using "3.prems"(3) by simp
  have IH: "sorted_wrt (\<lambda>l r. agree (key l) (spelled l) (key r) (spelled r)) (y # xs)"
    using 3 by simp
  have "agree (key x) (spelled x) (key z) (spelled z)" if z: "z \<in> set xs" for z
    unfolding agree_def
  proof (intro allI impI)
    fix n
    assume n: "take n (key x) = take n (key z)"
    show "take n (spelled x) = take n (spelled z)"
    proof (cases "n \<le> length (key x) \<and> n \<le> length (key z)")
      case True
      have "key x \<le> key y" "key y \<le> key z" using "3.prems"(1) z by auto
      then have "take n (key y) = take n (key x)" using sorted_between n True by blast
      then show ?thesis using xy IH z n by (simp add: agree_def)
    next
      case False
      moreover have "min n (length (key x)) = min n (length (key z))" using arg_cong [OF n, of length] by simp
      ultimately have "length (key x) \<le> n" "length (key z) \<le> n" by auto
      then have "key x = key z" using n by simp
      then have "key x = key y" using "3.prems"(1) z by auto
      then show ?thesis using xy IH z n \<open>key x = key z\<close> by (simp add: agree_def)
    qed
  qed
  then show ?case using xy IH by simp
qed auto

definition entry_of :: "(string \<Rightarrow> string) \<Rightarrow> string \<times> bool \<Rightarrow> path_entry" where
  "entry_of ck = (\<lambda>(p, d). (ck p, p, d))"

lemma set_path_sort:
  "set (sort_key key_components (map (entry_of ck) entries)) = entry_of ck ` set entries"
  by simp

lemma distinct_path_sort:
  "distinct (map key_components (sort_key key_components (map (entry_of ck) entries)))
   \<longleftrightarrow> distinct (map (\<lambda>e. ck (fst e)) entries)"
proof -
  have same: "set xs = set ys \<Longrightarrow> length xs = length ys \<Longrightarrow> distinct xs \<longleftrightarrow> distinct ys" for xs ys :: "string list list"
    by (metis card_distinct distinct_card)
  have "distinct (map key_components (sort_key key_components (map (entry_of ck) entries)))
      \<longleftrightarrow> distinct (map (\<lambda>e. components_of (ck (fst e))) entries)"
    by (rule same) (simp_all add: image_image entry_of_def split_def)
  also have "\<dots> \<longleftrightarrow> distinct (map components_of (map (\<lambda>e. ck (fst e)) entries))" by (simp add: comp_def)
  also have "\<dots> \<longleftrightarrow> distinct (map (\<lambda>e. ck (fst e)) entries)"
    unfolding distinct_map [of components_of] by (simp add: inj_on_def)
  finally show ?thesis .
qed

lemma validate_inner_iff:
  "validate_path_set_inner ck entries tree = Inr () \<longleftrightarrow>
     (\<forall>e\<in>set entries. is_safe_relative_path (fst e)) \<and> distinct (map (\<lambda>e. ck (fst e)) entries)
     \<and> (tree \<longrightarrow> (\<forall>(l, r)\<in>set (zip (sort_key key_components (map (entry_of ck) entries))
                                   (tl (sort_key key_components (map (entry_of ck) entries)))). \<not> alias_pair l r))
     \<and> (\<forall>f\<in>set entries. \<forall>e\<in>set entries.
          strict_prefix (components_of (ck (fst f))) (components_of (ck (fst e))) \<longrightarrow> snd f)"
proof -
  define paths where "paths = sort_key key_components (map (entry_of ck) entries)"
  have sorted: "sorted (map key_components paths)" by (simp add: paths_def)
  have set: "set paths = entry_of ck ` set entries" by (simp add: paths_def)
  have safe: "list_all (\<lambda>(_, p, _). is_safe_relative_path p) (map (entry_of ck) entries)
      \<longleftrightarrow> (\<forall>e\<in>set entries. is_safe_relative_path (fst e))"
    by (auto simp: list_all_iff entry_of_def)
  have window: "for_each (\<lambda>(l, r). ensure (\<not> (fst l = fst r \<or> tree \<and> alias_pair l r)) e) (zip paths (tl paths)) = Inr ()
      \<longleftrightarrow> distinct (map key_components paths)
         \<and> (tree \<longrightarrow> (\<forall>(l, r)\<in>set (zip paths (tl paths)). \<not> alias_pair l r))" for e :: string
    unfolding for_each_Inr_iff adjacent_distinct [OF sorted, symmetric] components_inject split_def ensure_Inr_iff by blast
  have parents: "for_each (\<lambda>e. check_parents paths (fst e)) paths = Inr () \<longleftrightarrow>
      (\<forall>f\<in>set entries. \<forall>e\<in>set entries.
          strict_prefix (components_of (ck (fst f))) (components_of (ck (fst e))) \<longrightarrow> snd f)"
    if "distinct (map key_components paths)"
    unfolding for_each_parents_iff [OF that] set by (auto simp: entry_of_def split_def)
  have "validate_path_set_inner ck entries tree = Inr () \<longleftrightarrow>
      (\<forall>e\<in>set entries. is_safe_relative_path (fst e))
      \<and> for_each (\<lambda>(l, r). ensure (\<not> (fst l = fst r \<or> tree \<and> alias_pair l r)) ''unsafe or colliding path set'')
          (zip paths (tl paths)) = Inr ()
      \<and> for_each (\<lambda>e. check_parents paths (fst e)) paths = Inr ()"
    unfolding validate_path_set_inner_def Let_def entry_of_def [symmetric] paths_def [symmetric] and_then_Inr_iff
      ensure_Inr_iff safe by simp
  then show ?thesis
    unfolding window paths_def [symmetric] distinct_path_sort [symmetric] using parents by (iprover)
qed

section \<open>Properties\<close>

text \<open>C21: A path set is accepted exactly when every path is a portable relative path, no two entries have
  the same collision key, and no file is also used as a directory: the key of a file is never a proper
  component prefix of the key of another entry. No assumption about the collision key is needed.\<close>

theorem path_set_exact:
  "validate_path_set ck entries = Inr () \<longleftrightarrow>
     (\<forall>(p, d)\<in>set entries. is_safe_relative_path p) \<and> distinct (map (\<lambda>(p, d). ck p) entries)
     \<and> (\<forall>(f, f_dir)\<in>set entries. \<forall>(p, d)\<in>set entries.
          strict_prefix (components_of (ck f)) (components_of (ck p)) \<longrightarrow> f_dir)"
  unfolding validate_path_set_def validate_inner_iff by (simp add: split_def)

lemmas path_eval = is_safe_relative_path_def is_safe_relative_def is_portable_component_def has_any_def
  is_control_byte_def WINDOWS_RESERVED_STEMS_def rust_str

theorem path_set_exact_witness: "validate_path_set (\<lambda>p. p) [(''a'', True), (''a/b'', False)] = Inr ()"
  unfolding path_set_exact by (simp add: path_eval strict_prefix_def)

text \<open>C12: A path tree is accepted exactly when it is accepted as a path set and one spelling is used for
  every directory, the implicit parents included: where the keys of two entries share leading
  components, so do their spellings. Comparing neighbours in the sorted list is enough to know this
  of every pair.\<close>

theorem path_tree_exact:
  assumes "\<forall>p. length (components_of (ck p)) = length (components_of p)"
  shows "validate_path_tree_set ck entries = Inr () \<longleftrightarrow>
     validate_path_set ck entries = Inr ()
     \<and> (\<forall>(p, d)\<in>set entries. \<forall>(q, e)\<in>set entries. \<forall>n.
          take n (components_of (ck p)) = take n (components_of (ck q)) \<longrightarrow>
          take n (components_of p) = take n (components_of q))"
proof -
  define paths where "paths = sort_key key_components (map (entry_of ck) entries)"
  let ?agree = "\<lambda>l r. agree (key_components l) (spelled_components l) (key_components r) (spelled_components r)"
  have set: "set paths = entry_of ck ` set entries" by (simp add: paths_def)
  have len: "length (key_components e) = length (spelled_components e)" if "e \<in> set paths" for e
    using that assms by (auto simp: set entry_of_def split_def)
  have aliased: "alias_pair l r \<longleftrightarrow> \<not> ?agree l r" if "l \<in> set paths" "r \<in> set paths" for l r
    unfolding alias_pair_def using alias_agree [OF len len] that by blast
  have "(\<forall>(l, r)\<in>set (zip paths (tl paths)). \<not> alias_pair l r) \<longleftrightarrow> (\<forall>l\<in>set paths. \<forall>r\<in>set paths. ?agree l r)"
  proof -
    have "(\<forall>(l, r)\<in>set (zip paths (tl paths)). \<not> alias_pair l r)
        \<longleftrightarrow> (\<forall>(l, r)\<in>set (zip paths (tl paths)). ?agree l r)"
    proof (rule ball_cong [OF refl])
      fix x
      assume "x \<in> set (zip paths (tl paths))"
      then have "fst x \<in> set paths" "snd x \<in> set paths" using neighbours [of "fst x" "snd x" paths] by simp_all
      then show "(case x of (l, r) \<Rightarrow> \<not> alias_pair l r) = (case x of (l, r) \<Rightarrow> ?agree l r)"
        unfolding split_def by (simp only: aliased not_not)
    qed
    also have "\<dots> \<longleftrightarrow> sorted_wrt ?agree paths"
      using adjacent_agree [of key_components paths spelled_components] len sorted_wrt_neighbours [of ?agree paths]
      by (auto simp: paths_def)
    also have "\<dots> \<longleftrightarrow> (\<forall>l\<in>set paths. \<forall>r\<in>set paths. ?agree l r)"
      by (rule sorted_wrt_all) (simp_all add: agree_def)
    finally show ?thesis .
  qed
  also have "\<dots> \<longleftrightarrow> (\<forall>(p, d)\<in>set entries. \<forall>(q, e)\<in>set entries. \<forall>n.
      take n (components_of (ck p)) = take n (components_of (ck q)) \<longrightarrow>
      take n (components_of p) = take n (components_of q))"
    by (simp add: set agree_def entry_of_def split_def)
  finally show ?thesis
    unfolding validate_path_tree_set_def validate_path_set_def validate_inner_iff paths_def [symmetric] by iprover
qed

theorem path_tree_exact_witness: "validate_path_tree_set (\<lambda>p. p) [(''a'', True), (''a/b'', False)] = Inr ()"
proof -
  have "validate_path_set (\<lambda>p. p) [(''a'', True), (''a/b'', False)] = Inr ()"
    unfolding validate_path_set_def validate_inner_iff by (simp add: path_eval strict_prefix_def)
  then show ?thesis using path_tree_exact [of "\<lambda>p. p" "[(''a'', True), (''a/b'', False)]"] by simp
qed

section \<open>Containment\<close>


lemma portable_component_plain:
  assumes "is_portable_component c w"
  shows "c \<noteq> []" "c \<noteq> ''.''" "c \<noteq> ''..''" "CHR '':'' \<notin> set c"
  using assms unfolding is_portable_component_def by (auto simp: has_any_def list_ex_iff split: if_splits)




text \<open>C34: Containment in a path prefix is containment of components: a path is within a prefix exactly
  when both are portable (the prefix up to one trailing slash) and the components of the prefix are
  leading components of the path. A prefix that ends inside a name contains nothing.\<close>

theorem within_prefix_components:
  "path_is_within_prefix path pre \<longleftrightarrow>
     is_safe_relative_path path
     \<and> (\<exists>base. (base = pre \<or> pre = base @ ''/'') \<and> is_safe_relative_path base
          \<and> prefix (components_of base) (components_of path))"
proof -
  have safe_end: "is_safe_relative_path p \<Longrightarrow> strip_suffix ''/'' p = None" for p
  proof (rule ccontr)
    assume p: "is_safe_relative_path p" "strip_suffix ''/'' p \<noteq> None"
    then obtain b where "p = b @ ''/''" by (auto simp: strip_suffix_Some_iff)
    then have "[] \<in> set (components_of p)" by (simp add: split_char_append_sep)
    then show False
      using p(1) portable_component_plain(1) by (auto simp: is_safe_relative_path_def is_safe_relative_def list_all_iff)
  qed
  have base: "(\<exists>base. (base = pre \<or> pre = base @ ''/'') \<and> is_safe_relative_path base \<and> P base) \<longleftrightarrow>
      (\<exists>base. normalize_path_prefix pre = Some base \<and> P base)" for P
  proof (cases "strip_suffix ''/'' pre")
    case None
    then have "pre \<noteq> base @ ''/''" for base using strip_suffix_Some_iff [of "''/''" pre base] by auto
    then show ?thesis using None by (simp add: normalize_path_prefix_def)
  next
    case (Some b)
    then have "\<not> is_safe_relative_path pre" using safe_end [of pre] by auto
    moreover have "pre = b @ ''/''" using Some by (simp add: strip_suffix_Some_iff)
    ultimately show ?thesis using Some by (auto simp: normalize_path_prefix_def)
  qed
  have within: "(case strip_prefix base path of Some s \<Rightarrow> s = [] \<or> starts_with s ''/'' | None \<Rightarrow> False)
      \<longleftrightarrow> prefix (components_of base) (components_of path)" for base
    unfolding prefix_components_iff
    by (cases "strip_prefix base path")
       (auto simp: strip_prefix_append [of base "[]", unfolded append_Nil2] strip_prefix_Some_iff starts_with_iff)
  show ?thesis
    unfolding base path_is_within_prefix_def within by (auto split: option.splits)
qed

end
