(* ===== verification/Serde.thy ===== *)
theory Serde
  imports Failure
begin

text \<open>
  What \<open>serde\<close> derives from the attributes of the types of \<open>Failure\<close>: \<open>from_value\<close> (\<open>None\<close> is an
  error, whose text is not modelled) and \<open>to_value\<close>. A struct is read from an object or from an array
  of its fields in order; \<open>deny_unknown_fields\<close> is the first argument of \<open>serde_struct\<close>. A unit
  variant is read from its name or from an object with that one key and the value \<open>null\<close>.
\<close>

section \<open>Generic decoders\<close>

fun serde_struct :: "bool \<Rightarrow> string list \<Rightarrow> json \<Rightarrow> (json option) list option" where
  "serde_struct deny names (Object m) =
     (if deny \<and> list_ex (\<lambda>(k, _). k \<notin> set names) m then None else Some (map (bt_get m) names))"
| "serde_struct deny names (Array vs) =
     (if length names < length vs then None
      else Some (map Some vs @ replicate (length names - length vs) None))"
| "serde_struct deny names _ = None"

fun serde_variant :: "(string \<times> 'a) list \<Rightarrow> json \<Rightarrow> 'a option" where
  "serde_variant table (String s) = map_of table s"
| "serde_variant table (Object [(k, Null)]) = map_of table k"
| "serde_variant table _ = None"

fun serde_option :: "(json \<Rightarrow> 'a option) \<Rightarrow> json \<Rightarrow> 'a option option" where
  "serde_option f Null = Some None"
| "serde_option f v = map_option Some (f v)"

fun collect_options :: "'a option list \<Rightarrow> 'a list option" where
  "collect_options [] = Some []"
| "collect_options (x # xs) =
     Option.bind x (\<lambda>v. map_option (\<lambda>vs. v # vs) (collect_options xs))"

fun serde_vec :: "(json \<Rightarrow> 'a option) \<Rightarrow> json \<Rightarrow> 'a list option" where
  "serde_vec f (Array vs) = collect_options (map f vs)"
| "serde_vec f _ = None"

definition serde_default :: "'a \<Rightarrow> (json \<Rightarrow> 'a option) \<Rightarrow> json option \<Rightarrow> 'a option" where
  "serde_default d f v = (case v of None \<Rightarrow> Some d | Some v \<Rightarrow> f v)"

definition serde_u32 :: "json \<Rightarrow> nat option" where
  "serde_u32 v = Option.bind (json_as_u64 v) (\<lambda>n. if n \<le> U32_MAX then Some n else None)"

lemma collect_options_Some_iff: "collect_options xs = Some vs \<longleftrightarrow> xs = map Some vs"
  by (induction xs arbitrary: vs) (auto simp: Option.bind_eq_Some_conv)

section \<open>Failure details\<close>

definition failure_code_names :: "(string \<times> failure_code) list" where
  "failure_code_names =
     [(''when_false'', WhenFalse), (''dependency_unsatisfied'', DependencyUnsatisfied),
      (''no_dependency_succeeded'', NoDependencySucceeded), (''check_failed'', CheckFailed),
      (''execution_failed'', ExecutionFailed), (''elapsed_exceeded'', ElapsedExceeded), (''timed_out'', TimedOut),
      (''repair_exhausted'', RepairExhausted), (''scheduler_failed'', SchedulerFailed), (''canceled'', Canceled),
      (''interrupted'', Interrupted), (''budget_exceeded'', BudgetExceeded),
      (''provider_context_exhausted'', ProviderContextExhausted), (''refused'', Refused),
      (''mcp_authorization_required'', McpAuthorizationRequired)]"

definition dependency_status_names :: "(string \<times> dependency_status) list" where
  "dependency_status_names = [(''skipped'', DepSkipped), (''failed'', DepFailed)]"

definition name_of :: "(string \<times> 'a) list \<Rightarrow> 'a \<Rightarrow> string" where
  "name_of table v = (case find (\<lambda>(_, w). w = v) table of Some (s, _) \<Rightarrow> s | None \<Rightarrow> [])"

definition decode_dependency_failure :: "json \<Rightarrow> dependency_failure option" where
  "decode_dependency_failure v =
     (case serde_struct True [''path'', ''status'', ''message''] v of
        Some [Some path, Some status, Some message] \<Rightarrow>
          Option.bind (json_as_str path) (\<lambda>path.
          Option.bind (serde_variant dependency_status_names status) (\<lambda>status.
          Option.bind (json_as_str message) (\<lambda>message.
          Some \<lparr>df_path = path, df_status = status, df_message = message\<rparr>)))
      | _ \<Rightarrow> None)"

definition decode_budget_exhaustion :: "json \<Rightarrow> budget_exhaustion option" where
  "decode_budget_exhaustion v =
     (case serde_struct True [''resource'', ''used'', ''allowed'', ''used_subsec_nanoseconds''] v of
        Some [Some resource, Some used, Some allowed, nanos] \<Rightarrow>
          Option.bind (json_as_str resource) (\<lambda>resource.
          Option.bind (json_as_u64 used) (\<lambda>used.
          Option.bind (json_as_u64 allowed) (\<lambda>allowed.
          Option.bind (serde_default None (serde_option serde_u32) nanos) (\<lambda>nanos.
          Some \<lparr>be_resource = resource, be_used = used, be_allowed = allowed,
                be_used_subsec_nanoseconds = nanos\<rparr>))))
      | _ \<Rightarrow> None)"

definition decode_failure_detail :: "json \<Rightarrow> failure_detail option" where
  "decode_failure_detail v =
     (case serde_struct True [''code'', ''message'', ''dependencies'', ''exhaustion''] v of
        Some [Some code, Some message, dependencies, exhaustion] \<Rightarrow>
          Option.bind (serde_variant failure_code_names code) (\<lambda>code.
          Option.bind (json_as_str message) (\<lambda>message.
          Option.bind (serde_default [] (serde_vec decode_dependency_failure) dependencies) (\<lambda>dependencies.
          Option.bind (serde_default None (serde_option decode_budget_exhaustion) exhaustion) (\<lambda>exhaustion.
          Some \<lparr>fd_code = code, fd_message = message, fd_dependencies = dependencies,
                fd_exhaustion = exhaustion\<rparr>))))
      | _ \<Rightarrow> None)"

definition dependency_failure_value :: "dependency_failure \<Rightarrow> json" where
  "dependency_failure_value d = Object (bt_collect
     [(''path'', String (df_path d)), (''status'', String (name_of dependency_status_names (df_status d))),
      (''message'', String (df_message d))])"

definition budget_exhaustion_value :: "budget_exhaustion \<Rightarrow> json" where
  "budget_exhaustion_value b = Object (bt_collect
     ([(''resource'', String (be_resource b)), (''used'', Number (PosInt (be_used b))),
       (''allowed'', Number (PosInt (be_allowed b)))]
      @ (case be_used_subsec_nanoseconds b of
           None \<Rightarrow> [] | Some n \<Rightarrow> [(''used_subsec_nanoseconds'', Number (PosInt n))])))"

definition failure_value :: "failure_detail \<Rightarrow> json" where
  "failure_value d = Object (bt_collect
     ([(''code'', String (name_of failure_code_names (fd_code d))), (''message'', String (fd_message d))]
      @ (if fd_dependencies d = [] then []
         else [(''dependencies'', Array (map dependency_failure_value (fd_dependencies d)))])
      @ (case fd_exhaustion d of None \<Rightarrow> [] | Some b \<Rightarrow> [(''exhaustion'', budget_exhaustion_value b)])))"

section \<open>What is written is read back\<close>

lemma decode_failure_code: "serde_variant failure_code_names (String (name_of failure_code_names c)) = Some c"
  by (cases c) (simp_all add: failure_code_names_def name_of_def)

lemma decode_dependency_status:
  "serde_variant dependency_status_names (String (name_of dependency_status_names c)) = Some c"
  by (cases c) (simp_all add: dependency_status_names_def name_of_def)

lemma serde_struct_object:
  assumes "\<forall>k\<in>set (map fst kvs). k \<in> set names"
  shows "serde_struct True names (Object (bt_collect kvs)) = Some (map (map_of (rev kvs)) names)"
proof -
  have "k \<in> set (map fst kvs)" if "(k, v) \<in> set (bt_collect kvs)" for k v
  proof -
    have "bt_get (bt_collect kvs) k = Some v" using that by (simp add: bt_get_Some_iff)
    then have "map_of (rev kvs) k \<noteq> None" by (auto simp: bt_collect_def bt_get_extend split: option.splits)
    then show ?thesis by (auto simp: map_of_eq_None_iff)
  qed
  then have "\<not> list_ex (\<lambda>(k, _). k \<notin> set names) (bt_collect kvs)"
    using assms by (fastforce simp: list_ex_iff)
  moreover have "bt_get (bt_collect kvs) = map_of (rev kvs)"
    by (rule ext) (simp add: bt_collect_def bt_get_extend split: option.split)
  ultimately show ?thesis by simp
qed

lemma decode_dependency_failure_value: "decode_dependency_failure (dependency_failure_value d) = Some d"
  unfolding decode_dependency_failure_def dependency_failure_value_def
  by (subst serde_struct_object) (simp_all add: decode_dependency_status del: serde_variant.simps)

lemma decode_budget_exhaustion_value:
  assumes "\<forall>n. be_used_subsec_nanoseconds b = Some n \<longrightarrow> n \<le> U32_MAX"
  shows "decode_budget_exhaustion (budget_exhaustion_value b) = Some b"
  unfolding decode_budget_exhaustion_def budget_exhaustion_value_def using assms
  by (cases "be_used_subsec_nanoseconds b"; subst serde_struct_object)
     (auto simp: serde_default_def serde_u32_def)

lemma budget_exhaustion_value_object: "budget_exhaustion_value b \<noteq> Null"
  by (simp add: budget_exhaustion_value_def)

definition failure_detail_wf :: "failure_detail \<Rightarrow> bool" where
  "failure_detail_wf d \<longleftrightarrow> (\<forall>b n. fd_exhaustion d = Some b \<longrightarrow> be_used_subsec_nanoseconds b = Some n \<longrightarrow> n \<le> U32_MAX)"

text \<open>C36: The structured reason of a failure that the journal and the value bag record is read back
  unchanged, with its dependencies and its budget facts, whatever its optional parts.\<close>

theorem failure_value_roundtrip:
  assumes "failure_detail_wf d"
  shows "decode_failure_detail (failure_value d) = Some d"
proof -
  have deps: "collect_options (map decode_dependency_failure (map dependency_failure_value ds)) = Some ds" for ds
    by (simp add: collect_options_Some_iff decode_dependency_failure_value)
  have exh: "serde_option decode_budget_exhaustion (budget_exhaustion_value b) = Some (Some b)"
    if "fd_exhaustion d = Some b" for b
    using assms that budget_exhaustion_value_object [of b] decode_budget_exhaustion_value [of b]
    by (cases "budget_exhaustion_value b") (auto simp: failure_detail_wf_def)
  show ?thesis
    unfolding decode_failure_detail_def failure_value_def
    by (subst serde_struct_object)
       (use exh deps in \<open>auto simp: decode_failure_code serde_default_def
          simp del: serde_variant.simps map_map split: option.splits\<close>)
qed

theorem failure_value_roundtrip_witness:
  "let d = (failure_detail_new BudgetExceeded ''budget'')
         \<lparr>fd_dependencies := [\<lparr>df_path = ''a'', df_status = DepFailed, df_message = ''m''\<rparr>],
          fd_exhaustion := Some (budget_exhaustion_elapsed 3 500 2)\<rparr>
   in decode_failure_detail (failure_value d) = Some d"
  unfolding Let_def
  by (rule failure_value_roundtrip) (simp add: failure_detail_wf_def failure_detail_new_def budget_exhaustion_elapsed_def)

end
