(* ===== verification/RunEvent.thy ===== *)
theory RunEvent
  imports Serde "HOL-Library.Word"
begin

text \<open>
  Run events (\<open>crates/api/src/events/envelope.rs\<close>, \<open>core.rs\<close>): the registry of event kinds, the
  envelope \<open>RunEvent::from_flat\<close> reads from a flat journal object, and the trace and span identifiers.

  The payload types of the registry are read by decoders that \<open>serde\<close> derives. The one whose result
  the fold uses, \<open>AgentFileChangesEventData\<close>, is written out; the others are the parameter \<open>decode\<close>,
  which gives the decoded payload of a kind or \<open>None\<close> for an error.
\<close>

unbundle bit_operations_syntax

section \<open>Event kinds\<close>

definition PUBLIC_RUN_EVENT_KINDS :: "string list" where
  "PUBLIC_RUN_EVENT_KINDS =
     [''elapsed_accounted'', ''run_queued'', ''run_started'', ''run_resumed'', ''graph_resolved'', ''resource'',
      ''step_started'', ''step_retry'', ''step_finished'', ''step_replayed'', ''step_skipped'',
      ''foreach_iteration'', ''foreach_budget_exhausted'', ''repair_attempt_started'',
      ''repair_attempt_finished'', ''regenerate_attempt_started'', ''regenerate_attempt_finished'',
      ''llm_call'', ''llm_delta'', ''agent_checkpoint'', ''agent_file_changes'', ''agent_delegated'',
      ''agent_completed'', ''agent_failed'', ''agent_handoff'', ''context_compacted'',
      ''llm_validation_failed'', ''llm_route_failed'', ''tool_call'', ''mcp_cleanup_settled'',
      ''guardrail_evaluated'', ''guardrail_error'', ''guardrail_tripwire'', ''tool_backend_resolved'',
      ''user_interaction'', ''out_of_contract'', ''confirm_request'', ''side_effect'', ''dry_run'',
      ''artifact'', ''run_waiting'', ''run_error'', ''run_canceled'', ''run_interrupted'', ''run_finished'',
      ''lagged'']"

definition INTERNAL_RUN_EVENT_KINDS :: "string list" where
  "INTERNAL_RUN_EVENT_KINDS =
     [''audit_degraded'', ''budget_charged'', ''elapsed_exceeded'', ''foreach_sibling_drained'',
      ''foreach_iteration_settled'', ''foreach_sibling_ignored'', ''hook_failed'', ''hook_replayed'',
      ''hook_skipped'', ''mcp_authorization_required'', ''mcp_continuation_consumed'',
      ''mcp_continuation_resumed'', ''mcp_destination_decision'', ''mcp_input_pending'',
      ''operation_finished'', ''operation_repeated'', ''parallel_replay_authorized'',
      ''parallel_task_joined'', ''operation_started'', ''run_forked'', ''run_yielded'', ''state_patched'',
      ''step_interrupted'', ''step_timeout'', ''user_answered'', ''user_cancel_requested'',
      ''user_confirmed'']"

definition TRANSPORT_RUN_EVENT_KINDS :: "string list" where
  "TRANSPORT_RUN_EVENT_KINDS = [''shutdown'', ''stream_error'']"

definition TERMINAL_EVENT_KINDS :: "string list" where
  "TERMINAL_EVENT_KINDS = [''run_finished'', ''run_error'', ''run_canceled'', ''run_interrupted'']"

definition is_known_run_event_kind :: "string \<Rightarrow> bool" where
  "is_known_run_event_kind kind \<longleftrightarrow> kind \<in> set PUBLIC_RUN_EVENT_KINDS"

definition is_terminal_event_kind :: "string \<Rightarrow> bool" where
  "is_terminal_event_kind kind \<longleftrightarrow> kind \<in> set TERMINAL_EVENT_KINDS"

definition all_run_event_kinds :: "string list" where
  "all_run_event_kinds =
     sort (PUBLIC_RUN_EVENT_KINDS @ INTERNAL_RUN_EVENT_KINDS @ TRANSPORT_RUN_EVENT_KINDS)"

section \<open>The envelope\<close>

datatype flat_error =
    EventNotObject
  | EventSeqRequired
  | EventFieldRequired string
  | InvalidEventData string

datatype run_event_data =
    AgentFileChanges "string list" "string list"
  | TypedData string json
  | UnknownData json

record run_event =
  ev_seq :: nat
  ev_ts :: string
  ev_run_id :: string
  ev_trace_id :: string
  ev_span_id :: string
  ev_parent_span_id :: "string option"
  ev_path :: "node_path option"
  ev_kind :: string
  ev_data :: run_event_data

definition decode_agent_file_changes :: "json \<Rightarrow> (string list \<times> string list) option" where
  "decode_agent_file_changes v =
     (case serde_struct True [''removed_files'', ''written_files''] v of
        Some [Some removed, Some written] \<Rightarrow>
          Option.bind (serde_vec json_as_str removed) (\<lambda>removed.
          Option.bind (serde_vec json_as_str written) (\<lambda>written. Some (removed, written)))
      | _ \<Rightarrow> None)"

fun json_insert :: "string \<Rightarrow> json \<Rightarrow> json \<Rightarrow> json" where
  \<comment> \<open>\<open>insert\<close> through \<open>as_object_mut\<close>\<close>
  "json_insert k v (Object m) = Object (bt_insert k v m)"
| "json_insert k v w = w"

definition migrate_schema_1 :: "string \<Rightarrow> json \<Rightarrow> json" where
  "migrate_schema_1 kind data =
     (if kind \<in> {''run_queued'', ''run_started''}
         \<and> Option.bind (json_get data ''schema_version'') json_as_u64 = Some 1
         \<and> json_get data ''elapsed_budget_mode'' = None
      then json_insert ''elapsed_budget_mode'' (String ''wall_clock'') data
      else data)"

definition parse_event_data ::
    "(string \<Rightarrow> json \<Rightarrow> json option) \<Rightarrow> string \<Rightarrow> json \<Rightarrow> flat_error + run_event_data" where
  "parse_event_data decode kind data =
     (let data = migrate_schema_1 kind data
      in if kind = ''agent_file_changes'' then
           map_err (\<lambda>_. InvalidEventData kind) (and_then (ok_or (decode_agent_file_changes data) ())
             (\<lambda>(removed, written). Inr (AgentFileChanges removed written)))
         else if is_known_run_event_kind kind then
           map_err (\<lambda>_. InvalidEventData kind) (and_then (ok_or (decode kind data) ()) (\<lambda>p. Inr (TypedData kind p)))
         else Inr (UnknownData data))"

definition required_string :: "(string, json) btree \<Rightarrow> string \<Rightarrow> string \<Rightarrow> flat_error + string" where
  "required_string object field label =
     ok_or (Option.bind (bt_get object field) json_as_str) (EventFieldRequired label)"

definition COMMON_FIELDS :: "string list" where
  "COMMON_FIELDS =
     [''seq'', ''ts'', ''t'', ''run_id'', ''trace_id'', ''span_id'', ''parent_span_id'', ''node'']"

definition from_flat :: "(string \<Rightarrow> json \<Rightarrow> json option) \<Rightarrow> json \<Rightarrow> flat_error + run_event" where
  "from_flat decode v =
     and_then (ok_or (json_as_object v) EventNotObject) (\<lambda>object.
     and_then (ok_or (Option.bind (bt_get object ''seq'') json_as_u64) EventSeqRequired) (\<lambda>seq.
     and_then (required_string object ''ts'' ''ts'') (\<lambda>ts.
     and_then (required_string object ''t'' ''kind'') (\<lambda>kind.
     and_then (required_string object ''run_id'' ''run_id'') (\<lambda>run_id.
     and_then (required_string object ''trace_id'' ''trace_id'') (\<lambda>trace_id.
     and_then (required_string object ''span_id'' ''span_id'') (\<lambda>span_id.
     and_then (parse_event_data decode kind (Object (fold bt_remove COMMON_FIELDS object))) (\<lambda>data.
     Inr \<lparr>ev_seq = seq, ev_ts = ts, ev_run_id = run_id, ev_trace_id = trace_id, ev_span_id = span_id,
          ev_parent_span_id = Option.bind (bt_get object ''parent_span_id'') json_as_str,
          ev_path = Option.bind (bt_get object ''node'') json_as_str,
          ev_kind = kind, ev_data = data\<rparr>))))))))"

section \<open>Trace and span identifiers\<close>


definition hex_digit :: "nat \<Rightarrow> char" where
  "hex_digit d = (if d < 10 then char_of (48 + d) else char_of (87 + d))"

fun hex_padded :: "nat \<Rightarrow> nat \<Rightarrow> string" where
  \<comment> \<open>the last digits of a number in lower case hexadecimal\<close>
  "hex_padded 0 n = []"
| "hex_padded (Suc k) n = hex_padded k (n div 16) @ [hex_digit (n mod 16)]"







section \<open>Identifiers are well formed\<close>





lemma hex_padded_length [simp]: "length (hex_padded k n) = k"
  by (induction k arbitrary: n) auto








end
