(* ===== verification/RunState.thy ===== *)
theory RunState
  imports RunEvent ValueBag PathPolicy
begin

text \<open>
  The state of a run as the fold of its journal (\<open>crates/engine/src/state.rs\<close>): the records, the
  whole of \<open>RunState::apply\<close> with one operation per event kind, and the folds over a journal.

  A journal event is a JSON value. \<open>codec\<close> collects what the fold takes from other code: the derived
  payload decoders of the event registry, the RFC 3339 check of \<open>chrono\<close> and the derived decoders of
  the two interaction forms. An error of \<open>apply\<close> ends every fold and the writers drop the partly
  updated clone, so a failed step is its error alone. Reading the journal file and writing
  \<open>state.json\<close> are not modelled: the folds take the list of events.
\<close>

section \<open>Data\<close>

definition RUN_STATE_SCHEMA_VERSION :: nat where "RUN_STATE_SCHEMA_VERSION = 9"

definition JOURNAL_SCHEMA_VERSION :: nat where "JOURNAL_SCHEMA_VERSION = 2"

datatype terminal_state = Succeeded | RunFailed | RunCanceled | RunInterrupted

datatype elapsed_budget_mode = WallClock | ActiveExecution

datatype side_effect_scope = ScopeInvocation | ScopeContent

record form_spec =
  form_id :: string
  form_title :: string
  form_title_i18n :: "(string, string) btree"
  form_fields :: "json list"

record confirm_spec =
  confirm_id :: string
  confirm_title :: string
  confirm_kind :: string
  confirm_target :: string
  confirm_dry_run :: bool
  confirm_details :: "json option"
  confirm_operation_digest :: string
  confirm_scope :: side_effect_scope

datatype interaction = Question form_spec | Confirmation confirm_spec

fun response_identity :: "interaction \<Rightarrow> string \<times> string \<times> string" where
  "response_identity (Question question) = (''user_answered'', ''question_id'', form_id question)"
| "response_identity (Confirmation confirm) = (''user_confirmed'', ''confirmation_id'', confirm_id confirm)"

record file_pin =
  pin_path :: string
  pin_sha256 :: string

datatype node_outcome =
    OutcomeSuccess "json option" "file_pin list"
  | OutcomeSkipped failure_detail
  | OutcomeFailed failure_detail

record elapsed_ledger =
  active_nanoseconds :: nat
  active_started_at :: "string option"

record budget_state =
  elapsed_mode :: elapsed_budget_mode
  elapsed :: "elapsed_ledger option"
  steps_executed :: nat
  budget_charged :: nat
  has_budget_charges :: bool
  steps_succeeded :: nat
  steps_failed :: nat
  steps_skipped :: nat
  repair_attempts :: nat
  regenerate_attempts :: nat
  llm_calls :: nat
  tokens_input :: nat
  tokens_output :: nat
  tokens_cached_input :: nat
  tokens_cache_creation_input :: nat
  cost_microusd :: nat
  unresolved_search_cost :: bool
  started_at :: "string option"

datatype operation_status = Started | OpSucceeded | FailedClean | FailedIndeterminate

datatype retry_on_indeterminate = RetryFail | RetryRepeat

record operation_record =
  op_digest :: string
  op_status :: operation_status
  op_result :: "json option"
  op_result_ref :: "string option"
  op_invocation :: string
  op_on_indeterminate :: retry_on_indeterminate

type_synonym btset = "(string, unit) btree"

record run_state =
  schema_version :: nat
  run_id :: "string option"
  contract_sha256 :: "string option"
  package_sha256 :: "string option"
  generator_path :: "string option"
  generator_id :: "string option"
  last_seq :: nat
  labels :: "(string, string) btree"
  audit_seq :: nat
  run_inputs :: "(string, json) btree option"
  vars :: value_bag
  nodes :: "(node_path, node_outcome) btree"
  checkpoints :: "(node_path, json) btree"
  unresolved_tasks :: "(string, json) btree"
  foreach_reports :: "(string, json) btree"
  removed_files :: btset
  budget :: budget_state
  resource_pins :: "(string, string) btree"
  latest_file_pins :: "(string, string) btree"
  node_executions :: "(string, nat) btree"
  historical_file_pins :: "(string, btset) btree"
  pending :: "interaction option"
  pending_seq :: "nat option"
  pending_interactions :: "(node_path, interaction) btree"
  interaction_seqs :: "(node_path, nat) btree"
  terminal :: "terminal_state option"
  execution_started :: bool
  finished_at :: "string option"
  priority :: int
  parent_run_id :: "string option"
  queued_at :: "string option"
  operation_records :: "(string, operation_record) btree"
  operation_attempts :: "(string, nat) btree"
  answers :: "(string, json) btree"
  confirmations :: "(string, bool) btree"
  cancel_requested :: bool
  cancel_operations :: btset
  mcp_pending :: "(string, json) btree"
  mcp_resumed :: "(string, string) btree"
  hooks_settled :: btset

definition budget_default :: budget_state where
  "budget_default =
     \<lparr>elapsed_mode = WallClock, elapsed = None, steps_executed = 0, budget_charged = 0,
      has_budget_charges = False, steps_succeeded = 0, steps_failed = 0, steps_skipped = 0,
      repair_attempts = 0, regenerate_attempts = 0, llm_calls = 0, tokens_input = 0, tokens_output = 0,
      tokens_cached_input = 0, tokens_cache_creation_input = 0, cost_microusd = 0,
      unresolved_search_cost = False, started_at = None\<rparr>"

definition run_state_default :: run_state where
  "run_state_default =
     \<lparr>schema_version = RUN_STATE_SCHEMA_VERSION, run_id = None, contract_sha256 = None,
      package_sha256 = None, generator_path = None, generator_id = None, last_seq = 0, labels = [],
      audit_seq = 0, run_inputs = None, vars = with_inputs [], nodes = [], checkpoints = [],
      unresolved_tasks = [], foreach_reports = [], removed_files = [], budget = budget_default,
      resource_pins = [], latest_file_pins = [], node_executions = [], historical_file_pins = [],
      pending = None, pending_seq = None, pending_interactions = [], interaction_seqs = [],
      terminal = None, execution_started = False, finished_at = None, priority = 0,
      parent_run_id = None, queued_at = None, operation_records = [], operation_attempts = [],
      answers = [], confirmations = [], cancel_requested = False, cancel_operations = [],
      mcp_pending = [], mcp_resumed = [], hooks_settled = []\<rparr>"

section \<open>Errors and event fields\<close>

datatype event_error =
    SeqZero
  | SeqNotGreater nat nat
  | KindRequired
  | ForeignRun string string
  | UnknownKind string
  | FinalRun string
  | UnsupportedSchema nat
  | MissingElapsedMode
  | SchemaOneMode
  | ElapsedModeChanged
  | MissingActiveLedger
  | AdmissionParent string string
  | PackageChanged
  | CounterOverflow string
  | LedgerWithoutIdentity
  | MissingActiveTotal
  | MissingActiveAnchor
  | InvalidActiveAnchor
  | IllegalLedgerTransition
  | InvalidChargeAmount
  | MissingTokenCount string
  | InvalidTokenCount string
  | MissingCost
  | InvalidCost
  | InvalidFlatEvent flat_error
  | FileChangesWithoutNode
  | InvalidFileChanges
  | UnsafeFileChange
  | PatchStatuses
  | IterationRequired
  | TaskOwnerRequired
  | StepNodeRequired
  | StepStatusRequired
  | InvalidPins string
  | InvalidReason
  | InvalidInteraction
  | ResponseIdRequired string string
  | AnswerValuesRequired
  | ApprovedRequired
  | OperationDigestRequired
  | OperationInvocationRequired

datatype journal_error = JsonError | InvalidEvent event_error

record codec =
  cd_payload :: "string \<Rightarrow> json \<Rightarrow> json option"
  cd_rfc3339 :: "string \<Rightarrow> bool"
  cd_form :: "json \<Rightarrow> form_spec option"
  cd_confirm :: "json \<Rightarrow> confirm_spec option"

abbreviation event_str :: "json \<Rightarrow> string \<Rightarrow> string option" where
  "event_str event k \<equiv> Option.bind (json_get event k) json_as_str"

abbreviation event_u64 :: "json \<Rightarrow> string \<Rightarrow> nat option" where
  "event_u64 event k \<equiv> Option.bind (json_get event k) json_as_u64"

abbreviation event_object :: "json \<Rightarrow> string \<Rightarrow> (string \<times> json) list option" where
  "event_object event k \<equiv> Option.bind (json_get event k) json_as_object"

definition or_else :: "'a option \<Rightarrow> 'a option \<Rightarrow> 'a option" where
  "or_else x y = (case x of None \<Rightarrow> y | Some v \<Rightarrow> Some v)"

definition unwrap_or :: "'a option \<Rightarrow> 'a \<Rightarrow> 'a" where
  "unwrap_or x d = (case x of None \<Rightarrow> d | Some v \<Rightarrow> v)"

abbreviation set_add :: "string \<Rightarrow> btset \<Rightarrow> btset" where
  "set_add k s \<equiv> bt_insert k () s"

definition count_up :: "string \<Rightarrow> nat \<Rightarrow> nat \<Rightarrow> journal_error + nat" where
  \<comment> \<open>\<open>checked_add\<close> of a \<open>u64\<close> or \<open>usize\<close> counter, with its overflow error\<close>
  "count_up what n amount = ok_or (checked_add_u64 n amount) (InvalidEvent (CounterOverflow what))"

section \<open>Interactions\<close>

definition project_interaction :: "run_state \<Rightarrow> run_state" where
  "project_interaction st =
     (case pending_interactions st of
        [] \<Rightarrow> st\<lparr>pending := None, pending_seq := None\<rparr>
      | (owner, prompt) # _ \<Rightarrow>
          st\<lparr>pending := Some prompt, pending_seq := bt_get (interaction_seqs st) owner\<rparr>)"

definition retire_interaction :: "string \<Rightarrow> run_state \<Rightarrow> run_state" where
  "retire_interaction path st =
     (let retired = bt_get (pending_interactions st) path;
          st = st\<lparr>pending_interactions := bt_remove path (pending_interactions st)\<rparr>;
          st = (case (retired, pending st) of
                  (Some retired, Some current) \<Rightarrow>
                    if response_identity current = response_identity retired then project_interaction st else st
                | _ \<Rightarrow> st)
      in st\<lparr>interaction_seqs := bt_remove path (interaction_seqs st)\<rparr>)"

definition decode_interaction :: "codec \<Rightarrow> bool \<Rightarrow> json \<Rightarrow> interaction option" where
  "decode_interaction cx confirmation payload =
     (if confirmation then map_option Confirmation (cd_confirm cx payload)
      else map_option Question (cd_form cx payload))"

definition interaction_owner :: "json \<Rightarrow> interaction \<Rightarrow> run_state \<Rightarrow> node_path option" where
  "interaction_owner event prompt st =
     or_else (event_str event ''node'')
       (map_option fst (find (\<lambda>(_, saved). response_identity saved = response_identity prompt)
          (pending_interactions st)))"

definition install_interaction :: "codec \<Rightarrow> json \<Rightarrow> bool \<Rightarrow> run_state \<Rightarrow> journal_error + run_state" where
  "install_interaction cx event confirmation st =
     (case json_get event (if confirmation then ''confirm'' else ''question'') of
        None \<Rightarrow> Inr st
      | Some payload \<Rightarrow>
          and_then (ok_or (decode_interaction cx confirmation payload) (InvalidEvent InvalidInteraction)) (\<lambda>prompt.
          let seq = event_u64 event ''seq''
          in case interaction_owner event prompt st of
               Some owner \<Rightarrow>
                 (let seqs = bt_remove owner (interaction_seqs st);
                      seqs = (case seq of Some n \<Rightarrow> bt_insert owner n seqs | None \<Rightarrow> seqs)
                  in Inr (project_interaction
                       (st\<lparr>interaction_seqs := seqs,
                           pending_interactions := bt_insert owner prompt (pending_interactions st)\<rparr>)))
             | None \<Rightarrow> Inr (st\<lparr>pending := Some prompt, pending_seq := seq\<rparr>)))"

section \<open>Finished steps\<close>

definition decode_file_pin :: "json \<Rightarrow> file_pin option" where
  "decode_file_pin v =
     (case serde_struct False [''path'', ''sha256''] v of
        Some [Some path, Some sha256] \<Rightarrow>
          Option.bind (json_as_str path) (\<lambda>path.
          Option.bind (json_as_str sha256) (\<lambda>sha256. Some \<lparr>pin_path = path, pin_sha256 = sha256\<rparr>))
      | _ \<Rightarrow> None)"

definition event_pins :: "json \<Rightarrow> string \<Rightarrow> journal_error + file_pin list" where
  "event_pins event key =
     (case json_get event key of
        None \<Rightarrow> Inr []
      | Some v \<Rightarrow> ok_or (serde_vec decode_file_pin v) (InvalidEvent (InvalidPins key)))"

definition record_history :: "file_pin list \<Rightarrow> run_state \<Rightarrow> run_state" where
  "record_history pins st =
     st\<lparr>historical_file_pins :=
       foldl (\<lambda>m pin. bt_insert (pin_path pin) (set_add (pin_sha256 pin) (unwrap_or (bt_get m (pin_path pin)) [])) m)
         (historical_file_pins st) pins\<rparr>"

definition apply_workspace_file_pins :: "file_pin list \<Rightarrow> run_state \<Rightarrow> run_state" where
  "apply_workspace_file_pins pins st =
     foldl (\<lambda>st pin. st\<lparr>latest_file_pins := bt_insert (pin_path pin) (pin_sha256 pin) (latest_file_pins st),
                       removed_files := bt_remove (pin_path pin) (removed_files st)\<rparr>) st pins"

definition record_node_execution :: "string \<Rightarrow> run_state \<Rightarrow> journal_error + run_state" where
  "record_node_execution path st =
     and_then (count_up ''node execution generation'' (unwrap_or (bt_get (node_executions st) path) 0) 1) (\<lambda>n.
     Inr (st\<lparr>node_executions := bt_insert path n (node_executions st)\<rparr>))"

definition failure_detail_of :: "json \<Rightarrow> failure_code \<Rightarrow> string \<Rightarrow> journal_error + failure_detail" where
  "failure_detail_of event default_code default_message =
     (case json_get event ''reason'' of
        None \<Rightarrow> Inr (failure_detail_new default_code default_message)
      | Some reason \<Rightarrow> ok_or (decode_failure_detail reason) (InvalidEvent InvalidReason))"

definition is_succeeded_status :: "string \<Rightarrow> bool" where
  "is_succeeded_status status \<longleftrightarrow>
     status \<in> {''success'', ''repaired'', ''routed'', ''answered_on_fail'', ''regenerated''}"

definition is_suspended_status :: "string \<Rightarrow> bool" where
  "is_suspended_status status \<longleftrightarrow> status \<in> {''needs_user'', ''needs_confirm''}"

definition settle_tasks :: "string \<Rightarrow> bool \<Rightarrow> run_state \<Rightarrow> run_state" where
  "settle_tasks path succeeded st =
     st\<lparr>unresolved_tasks := bt_retain (\<lambda>owner fact.
       owner \<noteq> path \<and> \<not> (succeeded \<and> event_str fact ''node'' = Some path)) (unresolved_tasks st)\<rparr>"

definition record_success :: "json \<Rightarrow> string \<Rightarrow> file_pin list \<Rightarrow> run_state \<Rightarrow> journal_error + run_state" where
  "record_success event path pins st =
     and_then (count_up ''succeeded step count'' (steps_succeeded (budget st)) 1) (\<lambda>n.
     let output = Option.bind (json_get event ''output'') (\<lambda>v. if v = Null then None else Some v);
         output_name = unwrap_or (event_str event ''output_name'') path;
         bag = (case output of Some v \<Rightarrow> set_step_output output_name v (vars st) | None \<Rightarrow> vars st)
     in Inr (st\<lparr>budget := (budget st)\<lparr>steps_succeeded := n\<rparr>, vars := set_step_outcome path ''success'' None bag,
                nodes := bt_insert path (OutcomeSuccess output pins) (nodes st)\<rparr>))"

definition record_failure :: "json \<Rightarrow> string \<Rightarrow> string \<Rightarrow> run_state \<Rightarrow> journal_error + run_state" where
  "record_failure event path status st =
     and_then (count_up ''failed step count'' (steps_failed (budget st)) 1) (\<lambda>n.
     and_then (failure_detail_of event ExecutionFailed status) (\<lambda>reason.
     Inr (st\<lparr>budget := (budget st)\<lparr>steps_failed := n\<rparr>,
             vars := set_step_outcome path ''failed'' (Some (failure_value reason)) (vars st),
             nodes := bt_insert path (OutcomeFailed reason) (nodes st)\<rparr>)))"

definition apply_step_finished :: "codec \<Rightarrow> json \<Rightarrow> run_state \<Rightarrow> journal_error + run_state" where
  "apply_step_finished cx event st =
     and_then (ok_or (event_str event ''node'') (InvalidEvent StepNodeRequired)) (\<lambda>path.
     and_then (ok_or (event_str event ''status'') (InvalidEvent StepStatusRequired)) (\<lambda>status.
     and_then (event_pins event ''files'') (\<lambda>pins.
     and_then (event_pins event ''failed_files'') (\<lambda>failed_pins.
     let succeeded = is_succeeded_status status;
         suspended = is_suspended_status status;
         st = settle_tasks path succeeded (record_history (pins @ failed_pins) st);
         st = (if succeeded \<or> suspended then apply_workspace_file_pins pins st else st)
     in and_then (if suspended then install_interaction cx event (status = ''needs_confirm'') st else Inr st) (\<lambda>st.
        and_then (if succeeded then record_success event path pins st
                  else if suspended then Inr st
                  else record_failure event path status st) (\<lambda>st.
        if suspended then Inr st
        else record_node_execution path
               (retire_interaction path (st\<lparr>checkpoints := bt_remove path (checkpoints st)\<rparr>))))))))"

section \<open>Admission\<close>

definition decode_elapsed_mode :: "json \<Rightarrow> elapsed_budget_mode option" where
  "decode_elapsed_mode v =
     serde_variant [(''wall_clock'', WallClock), (''active_execution'', ActiveExecution)] v"

definition admission_mode :: "json \<Rightarrow> journal_error + elapsed_budget_mode" where
  "admission_mode event =
     (let version = unwrap_or (event_u64 event ''schema_version'') 1
      in and_then (case json_get event ''elapsed_budget_mode'' of
                     Some v \<Rightarrow> ok_or (decode_elapsed_mode v) JsonError
                   | None \<Rightarrow> if version = 1 then Inr WallClock else Inl (InvalidEvent MissingElapsedMode)) (\<lambda>mode.
         if version = 1 \<and> mode \<noteq> WallClock then Inl (InvalidEvent SchemaOneMode) else Inr mode))"

definition admit_ledger :: "elapsed_budget_mode \<Rightarrow> run_state \<Rightarrow> journal_error + run_state" where
  "admit_ledger mode st =
     (if started_at (budget st) \<noteq> None \<and> elapsed_mode (budget st) \<noteq> mode
      then Inl (InvalidEvent ElapsedModeChanged)
      else if mode = ActiveExecution \<and> elapsed (budget st) = None then
        (if contract_sha256 st \<noteq> None \<or> started_at (budget st) \<noteq> None \<or> execution_started st
         then Inl (InvalidEvent MissingActiveLedger)
         else Inr (st\<lparr>budget := (budget st)\<lparr>elapsed := Some \<lparr>active_nanoseconds = 0, active_started_at = None\<rparr>,
                                          elapsed_mode := mode\<rparr>\<rparr>))
      else Inr (st\<lparr>budget := (budget st)\<lparr>elapsed_mode := mode\<rparr>\<rparr>))"

definition generator_owner :: "string \<Rightarrow> string" where
  "generator_owner generator =
     (case split_once_char (CHR ''@'') generator of Some (nid, _) \<Rightarrow> nid | None \<Rightarrow> generator)"

definition admit_identity :: "json \<Rightarrow> run_state \<Rightarrow> journal_error + run_state" where
  "admit_identity event st =
     and_then (case (run_id st, event_str event ''run_id'') of
                 (Some previous, Some next) \<Rightarrow>
                   ensure (previous = next \<or> event_str event ''parent_run_id'' = Some previous)
                     (InvalidEvent (AdmissionParent next previous))
               | _ \<Rightarrow> Inr ()) (\<lambda>_.
     and_then (ensure (package_sha256 st = None \<or> package_sha256 st = event_str event ''package_sha256'')
                 (InvalidEvent PackageChanged)) (\<lambda>_.
     Inr (st\<lparr>run_id := event_str event ''run_id'',
             package_sha256 := event_str event ''package_sha256'',
             generator_path := event_str event ''generator_path'',
             contract_sha256 := event_str event ''contract_sha256'',
             generator_id := (case generator_id st of
                                Some g \<Rightarrow> Some g
                              | None \<Rightarrow> map_option generator_owner (event_str event ''generator''))\<rparr>)))"

definition admit_inputs :: "json \<Rightarrow> run_state \<Rightarrow> run_state" where
  "admit_inputs event st =
     (case event_object event ''inputs'' of
        Some m \<Rightarrow> st\<lparr>run_inputs := Some (bt_collect m), vars := with_inputs (bt_collect m)\<rparr>
      | None \<Rightarrow> st)"

definition clamp_i32 :: "int \<Rightarrow> int" where
  "clamp_i32 i = max (- 2147483648) (min 2147483647 i)"

definition admit_queue :: "json \<Rightarrow> run_state \<Rightarrow> run_state" where
  "admit_queue event st =
     st\<lparr>priority := (case Option.bind (json_get event ''priority'') json_as_i64 of
                      Some p \<Rightarrow> clamp_i32 p | None \<Rightarrow> priority st),
        parent_run_id := event_str event ''parent_run_id'',
        queued_at := or_else (event_str event ''queued_at'') (event_str event ''ts''),
        answers := bt_extend (answers st) (unwrap_or (event_object event ''answers'') []),
        confirmations := bt_extend (confirmations st)
          (List.map_filter (\<lambda>(k, v). map_option (Pair k) (json_as_bool v))
             (unwrap_or (event_object event ''confirmations'') []))\<rparr>"

definition admit_labels :: "json \<Rightarrow> run_state \<Rightarrow> run_state" where
  "admit_labels event st =
     (case event_object event ''labels'' of
        Some m \<Rightarrow> st\<lparr>labels := bt_collect (List.map_filter (\<lambda>(k, v). map_option (Pair k) (json_as_str v)) m)\<rparr>
      | None \<Rightarrow> st)"

definition admit_start :: "json \<Rightarrow> run_state \<Rightarrow> run_state" where
  "admit_start event st =
     st\<lparr>terminal := None,
        budget := (if started_at (budget st) = None
                   then (budget st)\<lparr>started_at := event_str event ''ts''\<rparr> else budget st)\<rparr>"

type_synonym handler = "codec \<Rightarrow> string \<Rightarrow> json \<Rightarrow> run_state \<Rightarrow> journal_error + run_state"

definition on_admission :: handler where
  "on_admission cx kind event st =
     and_then (admission_mode event) (\<lambda>mode.
     and_then (admit_ledger mode st) (\<lambda>st.
     and_then (admit_identity event st) (\<lambda>st.
     let st = admit_start event (admit_inputs event st);
         st = (if kind = ''run_queued'' then admit_queue event st else st);
         st = (if kind = ''run_started'' then st\<lparr>execution_started := True\<rparr> else st)
     in Inr (admit_labels event st))))"

section \<open>Budget events\<close>

definition on_run_resumed :: handler where
  "on_run_resumed cx kind event st = Inr (st\<lparr>terminal := None\<rparr>)"

definition on_step_started :: handler where
  "on_step_started cx kind event st =
     and_then (count_up ''executed step count'' (steps_executed (budget st)) 1) (\<lambda>n.
     Inr (st\<lparr>budget := (budget st)\<lparr>steps_executed := n\<rparr>\<rparr>))"

definition decode_elapsed_accounted :: "codec \<Rightarrow> json \<Rightarrow> json \<Rightarrow> elapsed_ledger option" where
  "decode_elapsed_accounted cx nanoseconds anchor =
     Option.bind (json_as_u64 nanoseconds) (\<lambda>n.
     Option.bind (serde_option json_as_str anchor) (\<lambda>anchor.
     if (case anchor of Some ts \<Rightarrow> cd_rfc3339 cx ts | None \<Rightarrow> True)
     then Some \<lparr>active_nanoseconds = n, active_started_at = anchor\<rparr> else None))"

definition legal_ledger :: "elapsed_ledger option \<Rightarrow> elapsed_ledger \<Rightarrow> bool" where
  "legal_ledger previous next =
     (case previous of
        None \<Rightarrow> False
      | Some previous \<Rightarrow>
          (case (active_started_at previous, active_started_at next) of
             (None, Some _) \<Rightarrow> active_nanoseconds next = active_nanoseconds previous
           | (Some _, None) \<Rightarrow> active_nanoseconds previous \<le> active_nanoseconds next
           | _ \<Rightarrow> False))"

definition on_elapsed_accounted :: handler where
  "on_elapsed_accounted cx kind event st =
     and_then (ensure (elapsed_mode (budget st) = ActiveExecution \<and> run_id st \<noteq> None)
                 (InvalidEvent LedgerWithoutIdentity)) (\<lambda>_.
     and_then (ok_or (json_get event ''active_nanoseconds'') (InvalidEvent MissingActiveTotal)) (\<lambda>nanoseconds.
     and_then (ok_or (json_get event ''active_started_at'') (InvalidEvent MissingActiveAnchor)) (\<lambda>anchor.
     and_then (ok_or (decode_elapsed_accounted cx nanoseconds anchor) JsonError) (\<lambda>next.
     and_then (ensure (case active_started_at next of Some ts \<Rightarrow> cd_rfc3339 cx ts | None \<Rightarrow> True)
                 (InvalidEvent InvalidActiveAnchor)) (\<lambda>_.
     and_then (ensure (legal_ledger (elapsed (budget st)) next) (InvalidEvent IllegalLedgerTransition)) (\<lambda>_.
     Inr (st\<lparr>budget := (budget st)\<lparr>elapsed := Some next\<rparr>\<rparr>)))))))"

definition charge_amount :: "json \<Rightarrow> journal_error + nat" where
  "charge_amount event =
     (case json_get event ''amount'' of
        None \<Rightarrow> Inr 1
      | Some v \<Rightarrow> ok_or (json_as_u64 v) (InvalidEvent InvalidChargeAmount))"

definition on_budget_charged :: handler where
  "on_budget_charged cx kind event st =
     and_then (charge_amount event) (\<lambda>amount.
     and_then (count_up ''budget charge count'' (budget_charged (budget st)) amount) (\<lambda>n.
     Inr (st\<lparr>budget := (budget st)\<lparr>budget_charged := n, has_budget_charges := True\<rparr>\<rparr>)))"

definition token_counter :: "(string \<times> json) list \<Rightarrow> string \<Rightarrow> journal_error + nat" where
  "token_counter toks name =
     and_then (ok_or (bt_get toks name) (InvalidEvent (MissingTokenCount name))) (\<lambda>v.
     ok_or (json_as_u64 v) (InvalidEvent (InvalidTokenCount name)))"

definition count_tokens :: "(string \<times> json) list \<Rightarrow> budget_state \<Rightarrow> journal_error + budget_state" where
  "count_tokens toks b =
     and_then (token_counter toks ''input'') (\<lambda>n.
     and_then (count_up ''input token count'' (tokens_input b) n) (\<lambda>inp.
     and_then (token_counter toks ''output'') (\<lambda>n.
     and_then (count_up ''output token count'' (tokens_output b) n) (\<lambda>out.
     and_then (token_counter toks ''cached_input'') (\<lambda>n.
     and_then (count_up ''cached input token count'' (tokens_cached_input b) n) (\<lambda>cached.
     and_then (if bt_contains_key toks ''cache_creation_input''
               then token_counter toks ''cache_creation_input'' else Inr 0) (\<lambda>n.
     and_then (count_up ''cache creation input token count'' (tokens_cache_creation_input b) n) (\<lambda>creation.
     Inr (b\<lparr>tokens_input := inp, tokens_output := out, tokens_cached_input := cached,
            tokens_cache_creation_input := creation\<rparr>)))))))))"

definition event_cost :: "json \<Rightarrow> journal_error + nat" where
  "event_cost event =
     and_then (ok_or (json_get event ''cost_microusd'') (InvalidEvent MissingCost)) (\<lambda>v.
     ok_or (json_as_u64 v) (InvalidEvent InvalidCost))"

definition on_llm_call :: handler where
  "on_llm_call cx kind event st =
     and_then (count_up ''LLM call count'' (llm_calls (budget st)) 1) (\<lambda>calls.
     and_then (case event_object event ''tokens'' of
                 Some toks \<Rightarrow> count_tokens toks ((budget st)\<lparr>llm_calls := calls\<rparr>)
               | None \<Rightarrow> Inr ((budget st)\<lparr>llm_calls := calls\<rparr>)) (\<lambda>b.
     and_then (event_cost event) (\<lambda>cost.
     and_then (count_up ''cost counter'' (cost_microusd b) cost) (\<lambda>total.
     Inr (st\<lparr>budget := b\<lparr>cost_microusd := total\<rparr>\<rparr>)))))"

definition search_cost_unresolved :: "json \<Rightarrow> bool" where
  "search_cost_unresolved event =
     (case json_get event ''web_search'' of
        Some (Object m) \<Rightarrow> event_u64 (Object m) ''cost_microusd'' = None
      | _ \<Rightarrow> False)"

definition note_search_cost :: "string \<Rightarrow> json \<Rightarrow> run_state \<Rightarrow> run_state" where
  "note_search_cost kind event st =
     (if kind \<in> {''llm_call'', ''llm_route_failed''}
      then st\<lparr>budget := (budget st)\<lparr>unresolved_search_cost :=
                unresolved_search_cost (budget st) \<or> search_cost_unresolved event\<rparr>\<rparr>
      else st)"

section \<open>Files, checkpoints and patches\<close>

definition remove_file :: "string \<Rightarrow> run_state \<Rightarrow> run_state" where
  "remove_file path st =
     st\<lparr>latest_file_pins := bt_remove path (latest_file_pins st),
        removed_files := set_add path (removed_files st)\<rparr>"

definition restore_file :: "string \<Rightarrow> run_state \<Rightarrow> run_state" where
  "restore_file path st = st\<lparr>removed_files := bt_remove path (removed_files st)\<rparr>"

definition on_agent_file_changes :: handler where
  "on_agent_file_changes cx kind event st =
     and_then (map_err (\<lambda>e. InvalidEvent (InvalidFlatEvent e)) (from_flat (cd_payload cx) event)) (\<lambda>parsed.
     and_then (ensure (ev_path parsed \<noteq> None) (InvalidEvent FileChangesWithoutNode)) (\<lambda>_.
     (case ev_data parsed of
        AgentFileChanges removed written \<Rightarrow>
          and_then (ensure (list_all is_safe_relative_path (removed @ written)) (InvalidEvent UnsafeFileChange)) (\<lambda>_.
          Inr (fold restore_file written (fold remove_file removed st)))
      | _ \<Rightarrow> Inl (InvalidEvent InvalidFileChanges))))"

definition on_agent_checkpoint :: handler where
  "on_agent_checkpoint cx kind event st =
     (case (event_str event ''node'', json_get event ''checkpoint'') of
        (Some path, Some checkpoint) \<Rightarrow> Inr (st\<lparr>checkpoints := bt_insert path checkpoint (checkpoints st)\<rparr>)
      | _ \<Rightarrow> Inr st)"

definition patch_run_inputs :: "json \<Rightarrow> run_state \<Rightarrow> run_state" where
  "patch_run_inputs event st =
     (case event_object event ''inputs'' of
        Some m \<Rightarrow> st\<lparr>run_inputs := map_option (\<lambda>inputs. bt_extend inputs (bt_collect m)) (run_inputs st),
                    vars := patch_inputs (bt_collect m) (vars st)\<rparr>
      | None \<Rightarrow> st)"

definition patch_outputs :: "json \<Rightarrow> run_state \<Rightarrow> run_state" where
  "patch_outputs event st =
     (case event_object event ''step_outputs'' of
        Some m \<Rightarrow> st\<lparr>vars := patch_step_outputs (bt_collect m) (vars st)\<rparr>
      | None \<Rightarrow> st)"

definition on_state_patched :: handler where
  "on_state_patched cx kind event st =
     (let st = patch_outputs event (patch_run_inputs event st)
      in case event_object event ''step_statuses'' of
           Some m \<Rightarrow>
             and_then (ok_or (collect_options (map (\<lambda>(k, v). map_option (Pair k) (json_as_str v)) m))
                         (InvalidEvent PatchStatuses)) (\<lambda>statuses.
             Inr (st\<lparr>vars := patch_step_statuses (bt_collect statuses) (vars st)\<rparr>))
         | None \<Rightarrow> Inr st)"

section \<open>Joined tasks\<close>

definition is_reported_class :: "string \<Rightarrow> bool" where
  "is_reported_class cls \<longleftrightarrow>
     cls \<in> {''completed_success'', ''completed_terminal'', ''interaction_pending'', ''task_error'', ''agent_continuation''}"

fun json_remove :: "string \<Rightarrow> json \<Rightarrow> json" where
  "json_remove k (Object m) = Object (bt_remove k m)"
| "json_remove k v = v"

definition is_resumable :: "json \<Rightarrow> bool" where
  "is_resumable event \<longleftrightarrow>
     event_str event ''outcome'' = Some ''needs_user'' \<and> event_str event ''question_id'' \<noteq> None
     \<or> event_str event ''outcome'' = Some ''needs_confirm'' \<and> event_str event ''confirm_id'' \<noteq> None"

definition report_iteration :: "json \<Rightarrow> string \<Rightarrow> run_state \<Rightarrow> journal_error + run_state" where
  "report_iteration event cls st =
     and_then (ok_or (event_str event ''iteration'') (InvalidEvent IterationRequired)) (\<lambda>owner.
     let fact = fold json_remove [''t'', ''ts'', ''run_id'', ''trace_id'', ''span_id'', ''parent_span_id''] event;
         st = st\<lparr>foreach_reports := bt_insert owner fact (foreach_reports st)\<rparr>
     in Inr (if json_get event ''result'' = None
                 \<and> (cls = ''task_error'' \<or> cls = ''completed_terminal'' \<and> \<not> is_resumable event)
             then st\<lparr>unresolved_tasks := bt_insert owner event (unresolved_tasks st)\<rparr> else st))"

definition on_task_joined :: handler where
  "on_task_joined cx kind event st =
     (let cls = unwrap_or (event_str event ''classification'') [];
          unreported = (\<not> is_reported_class cls)
      in and_then (if \<not> unreported \<and> kind \<noteq> ''parallel_task_joined'' then report_iteration event cls st else Inr st) (\<lambda>st.
         if unreported then
           and_then (ok_or (Option.bind
               (event_str event (if kind \<noteq> ''parallel_task_joined'' then ''iteration'' else ''node''))
               (\<lambda>owner. if event_str event ''node'' \<noteq> None then Some owner else None))
             (InvalidEvent TaskOwnerRequired)) (\<lambda>owner.
           Inr (st\<lparr>unresolved_tasks := bt_insert owner event (unresolved_tasks st)\<rparr>))
         else Inr st))"

section \<open>Steps, repairs and resources\<close>

definition on_step_finished :: handler where
  "on_step_finished cx kind event st = apply_step_finished cx event st"

definition on_step_skipped :: handler where
  "on_step_skipped cx kind event st =
     and_then (count_up ''skipped step count'' (steps_skipped (budget st)) 1) (\<lambda>n.
     let st = st\<lparr>budget := (budget st)\<lparr>steps_skipped := n\<rparr>\<rparr>
     in case event_str event ''node'' of
          None \<Rightarrow> Inr st
        | Some path \<Rightarrow>
            and_then (failure_detail_of event ExecutionFailed ''step was skipped'') (\<lambda>reason.
            let st = retire_interaction path (st\<lparr>nodes := bt_insert path (OutcomeSkipped reason) (nodes st)\<rparr>)
            in Inr (st\<lparr>vars := set_step_outcome path ''skipped'' (Some (failure_value reason)) (vars st)\<rparr>)))"

definition on_repair_attempt_started :: handler where
  "on_repair_attempt_started cx kind event st =
     and_then (count_up ''repair attempt count'' (repair_attempts (budget st)) 1) (\<lambda>n.
     Inr (st\<lparr>budget := (budget st)\<lparr>repair_attempts := n\<rparr>\<rparr>))"

definition on_regenerate_attempt_started :: handler where
  "on_regenerate_attempt_started cx kind event st =
     and_then (count_up ''regenerate attempt count'' (regenerate_attempts (budget st)) 1) (\<lambda>n.
     Inr (st\<lparr>budget := (budget st)\<lparr>regenerate_attempts := n\<rparr>\<rparr>))"

definition on_resource :: handler where
  "on_resource cx kind event st =
     (case (event_str event ''name'', event_str event ''sha256'') of
        (Some name, Some digest) \<Rightarrow> Inr (st\<lparr>resource_pins := bt_insert name digest (resource_pins st)\<rparr>)
      | _ \<Rightarrow> Inr st)"

section \<open>Requests and responses\<close>

definition on_request :: handler where
  "on_request cx kind event st =
     and_then (if kind = ''confirm_request'' \<and> json_get event ''files'' \<noteq> None \<and> json_get event ''node'' \<noteq> None
               then apply_step_finished cx (json_insert ''status'' (String ''needs_confirm'') event) st
               else Inr st) (\<lambda>st.
     install_interaction cx event (kind = ''confirm_request'') st)"

definition answers_interaction :: "string \<Rightarrow> json \<Rightarrow> interaction \<Rightarrow> bool" where
  "answers_interaction kind event prompt =
     (case response_identity prompt of (expected, key, nid) \<Rightarrow> kind = expected \<and> event_str event key = Some nid)"

definition record_response :: "string \<Rightarrow> json \<Rightarrow> string \<Rightarrow> run_state \<Rightarrow> journal_error + run_state" where
  "record_response kind event nid st =
     (if kind = ''user_answered'' then
        and_then (ok_or (json_get event ''values'') (InvalidEvent AnswerValuesRequired)) (\<lambda>v.
        Inr (st\<lparr>answers := bt_insert nid v (answers st)\<rparr>))
      else
        and_then (ok_or (Option.bind (json_get event ''approved'') json_as_bool) (InvalidEvent ApprovedRequired)) (\<lambda>b.
        Inr (st\<lparr>confirmations := bt_insert nid b (confirmations st)\<rparr>)))"

definition on_response :: handler where
  "on_response cx kind event st =
     (let id_key = (if kind = ''user_answered'' then ''question_id'' else ''confirmation_id'');
          st = st\<lparr>queued_at := or_else (event_str event ''queued_at'') (event_str event ''ts'')\<rparr>
      in and_then (ok_or (event_str event id_key) (InvalidEvent (ResponseIdRequired kind id_key))) (\<lambda>nid.
         and_then (record_response kind event nid st) (\<lambda>st.
         let left = bt_retain (\<lambda>_ prompt. \<not> answers_interaction kind event prompt) (pending_interactions st);
             st = st\<lparr>pending_interactions := left,
                     interaction_seqs := bt_retain (\<lambda>owner _. bt_contains_key left owner) (interaction_seqs st)\<rparr>;
             st = (case pending st of
                     Some prompt \<Rightarrow> if answers_interaction kind event prompt then project_interaction st else st
                   | None \<Rightarrow> st)
         in Inr (st\<lparr>terminal := None\<rparr>))))"

definition on_cancel_requested :: handler where
  "on_cancel_requested cx kind event st =
     Inr (st\<lparr>cancel_requested := True,
             cancel_operations := (case event_str event ''operation_id'' of
                Some nid \<Rightarrow> set_add nid (cancel_operations st) | None \<Rightarrow> cancel_operations st)\<rparr>)"

section \<open>Hooks and continuations\<close>

definition on_hook_failed :: handler where
  "on_hook_failed cx kind event st =
     (case event_str event ''hook'' of
        None \<Rightarrow> Inr st
      | Some hook \<Rightarrow>
          (let st = (if get_path (vars st) (''steps.'' @ hook @ ''.status'') = None
                     then st\<lparr>vars := set_step_outcome hook ''failed'' (Some (failure_value (failure_detail_new ExecutionFailed
                            (unwrap_or (event_str event ''error'') ''hook execution failed'')))) (vars st)\<rparr>
                     else st)
           in Inr (if event_str event ''policy'' = Some ''warn''
                   then st\<lparr>hooks_settled := set_add hook (hooks_settled st)\<rparr> else st)))"

definition on_hook_skipped :: handler where
  "on_hook_skipped cx kind event st =
     (case event_str event ''hook'' of
        None \<Rightarrow> Inr st
      | Some hook \<Rightarrow>
          Inr (st\<lparr>vars := set_step_outcome hook ''skipped'' (Some (failure_value (failure_detail_new BudgetExceeded
                    (unwrap_or (event_str event ''error'') ''hook skipped because the run budget was exhausted''))))
                  (vars st),
                  hooks_settled := set_add hook (hooks_settled st)\<rparr>))"

definition MCP_PENDING_FIELDS :: "string list" where
  "MCP_PENDING_FIELDS =
     [''node'', ''question_id'', ''server'', ''tool'', ''alias'', ''call_id'', ''arguments'', ''request_state'',
      ''input_requests'']"

definition on_mcp_input_pending :: handler where
  "on_mcp_input_pending cx kind event st =
     (case event_str event ''pending_key'' of
        None \<Rightarrow> Inr st
      | Some key \<Rightarrow>
          Inr (st\<lparr>mcp_pending := bt_insert key
                (Object (bt_collect (List.map_filter (\<lambda>field. map_option (Pair field) (json_get event field))
                   MCP_PENDING_FIELDS))) (mcp_pending st)\<rparr>))"

definition on_mcp_continuation_consumed :: handler where
  "on_mcp_continuation_consumed cx kind event st =
     (case event_str event ''pending_key'' of
        None \<Rightarrow> Inr st
      | Some key \<Rightarrow>
          Inr (st\<lparr>mcp_pending := bt_remove key (mcp_pending st), mcp_resumed := bt_remove key (mcp_resumed st),
                  operation_records := bt_insert (''mcp:'' @ key)
                    \<lparr>op_digest = [], op_status = OpSucceeded, op_result = None, op_result_ref = None,
                     op_invocation = [], op_on_indeterminate = RetryFail\<rparr> (operation_records st)\<rparr>))"

definition on_mcp_continuation_resumed :: handler where
  "on_mcp_continuation_resumed cx kind event st =
     (case (event_str event ''pending_key'', event_str event ''question_id'') of
        (Some key, Some question) \<Rightarrow> Inr (st\<lparr>mcp_resumed := bt_insert key question (mcp_resumed st)\<rparr>)
      | _ \<Rightarrow> Inr st)"

section \<open>Run outcome and operations\<close>

definition terminal_of :: "string \<Rightarrow> string option \<Rightarrow> terminal_state" where
  "terminal_of kind status =
     (if kind = ''run_finished'' \<and> status = Some ''success'' then Succeeded
      else if kind = ''run_canceled'' then RunCanceled
      else if kind = ''run_interrupted'' then RunInterrupted
      else RunFailed)"

definition on_run_ended :: handler where
  "on_run_ended cx kind event st =
     Inr (st\<lparr>finished_at := event_str event ''ts'', pending := None, pending_seq := None,
             terminal := Some (terminal_of kind (event_str event ''status''))\<rparr>)"

definition on_run_forked :: handler where
  "on_run_forked cx kind event st = Inr (st\<lparr>run_id := event_str event ''run_id''\<rparr>)"

definition on_operation_started :: handler where
  "on_operation_started cx kind event st =
     (case event_str event ''operation_id'' of
        None \<Rightarrow> Inr st
      | Some nid \<Rightarrow>
          and_then (ok_or (event_str event ''operation_digest'') (InvalidEvent OperationDigestRequired)) (\<lambda>digest.
          and_then (ok_or (event_str event ''invocation_id'') (InvalidEvent OperationInvocationRequired)) (\<lambda>invocation.
          let policy = (if event_str event ''on_indeterminate'' = Some ''repeat'' then RetryRepeat else RetryFail);
              saved = unwrap_or (bt_get (operation_records st) nid)
                \<lparr>op_digest = digest, op_status = Started, op_result = None, op_result_ref = None,
                 op_invocation = invocation, op_on_indeterminate = policy\<rparr>
          in and_then (ok_or (checked_add_u32 (unwrap_or (bt_get (operation_attempts st) nid) 0) 1)
                         (InvalidEvent (CounterOverflow ''operation attempt generation''))) (\<lambda>attempts.
             Inr (st\<lparr>operation_records :=
                       bt_insert nid (saved\<lparr>op_status := Started, op_on_indeterminate := policy\<rparr>) (operation_records st),
                     operation_attempts := bt_insert nid attempts (operation_attempts st)\<rparr>)))))"

definition finished_outcome :: "json \<Rightarrow> operation_status \<times> json option \<times> string option" where
  "finished_outcome event =
     (let status = event_str event ''status''
      in if status = Some ''success'' then (OpSucceeded, json_get event ''result'', event_str event ''result_ref'')
         else if status = Some ''clean'' then (FailedClean, None, None)
         else (FailedIndeterminate, None, None))"

definition on_operation_finished :: handler where
  "on_operation_finished cx kind event st =
     (case event_str event ''operation_id'' of
        None \<Rightarrow> Inr st
      | Some nid \<Rightarrow>
          (case finished_outcome event of (new_status, result, result_ref) \<Rightarrow>
             (let saved = unwrap_or (bt_get (operation_records st) nid)
                    \<lparr>op_digest = [], op_status = new_status, op_result = None, op_result_ref = None,
                     op_invocation = [], op_on_indeterminate = RetryFail\<rparr>;
                  saved = (case event_str event ''operation_digest'' of
                             Some digest \<Rightarrow> saved\<lparr>op_digest := digest\<rparr> | None \<Rightarrow> saved)
              in Inr (st\<lparr>operation_records := bt_insert nid
                    (saved\<lparr>op_status := new_status, op_result := result, op_result_ref := result_ref\<rparr>)
                    (operation_records st)\<rparr>))))"

section \<open>Applying an event\<close>

definition handlers :: "(string \<times> handler) list" where
  "handlers =
     [(''run_queued'', on_admission), (''run_started'', on_admission), (''run_resumed'', on_run_resumed),
      (''step_started'', on_step_started), (''elapsed_accounted'', on_elapsed_accounted),
      (''budget_charged'', on_budget_charged), (''llm_call'', on_llm_call),
      (''agent_file_changes'', on_agent_file_changes), (''agent_checkpoint'', on_agent_checkpoint),
      (''state_patched'', on_state_patched), (''parallel_task_joined'', on_task_joined),
      (''foreach_sibling_drained'', on_task_joined), (''foreach_iteration_settled'', on_task_joined),
      (''step_finished'', on_step_finished), (''step_skipped'', on_step_skipped),
      (''repair_attempt_started'', on_repair_attempt_started),
      (''regenerate_attempt_started'', on_regenerate_attempt_started), (''resource'', on_resource),
      (''confirm_request'', on_request), (''run_waiting'', on_request), (''user_answered'', on_response),
      (''user_confirmed'', on_response), (''user_cancel_requested'', on_cancel_requested),
      (''hook_failed'', on_hook_failed), (''hook_skipped'', on_hook_skipped),
      (''mcp_input_pending'', on_mcp_input_pending),
      (''mcp_continuation_consumed'', on_mcp_continuation_consumed),
      (''mcp_continuation_resumed'', on_mcp_continuation_resumed), (''run_finished'', on_run_ended),
      (''run_error'', on_run_ended), (''run_canceled'', on_run_ended), (''run_interrupted'', on_run_ended),
      (''run_forked'', on_run_forked), (''operation_started'', on_operation_started),
      (''operation_finished'', on_operation_finished)]"

definition dispatch :: handler where
  "dispatch cx kind event st =
     (case map_of handlers kind of Some handle \<Rightarrow> handle cx kind event st | None \<Rightarrow> Inr st)"

definition accept_seq :: "json \<Rightarrow> run_state \<Rightarrow> journal_error + run_state" where
  "accept_seq event st =
     (case event_u64 event ''seq'' of
        None \<Rightarrow> Inr st
      | Some seq \<Rightarrow>
          if seq = 0 then Inl (InvalidEvent SeqZero)
          else if seq \<le> last_seq st then Inl (InvalidEvent (SeqNotGreater seq (last_seq st)))
          else Inr (st\<lparr>last_seq := seq\<rparr>))"

definition check_owner :: "string \<Rightarrow> json \<Rightarrow> run_state \<Rightarrow> journal_error + unit" where
  "check_owner kind event st =
     (case (run_id st, event_str event ''run_id'') of
        (Some expected, Some actual) \<Rightarrow>
          ensure (kind \<in> {''run_queued'', ''run_started'', ''run_forked''} \<or> actual = expected)
            (InvalidEvent (ForeignRun actual expected))
      | _ \<Rightarrow> Inr ())"

definition is_known_journal_event_kind :: "string \<Rightarrow> bool" where
  "is_known_journal_event_kind kind \<longleftrightarrow>
     is_known_run_event_kind kind \<or> kind \<in> set INTERNAL_RUN_EVENT_KINDS"

definition is_final :: "run_state \<Rightarrow> bool" where
  "is_final st \<longleftrightarrow> terminal st \<in> {Some Succeeded, Some RunFailed, Some RunCanceled}"

definition restarts_run :: "string \<Rightarrow> bool" where
  "restarts_run kind \<longleftrightarrow> kind \<in> {''run_queued'', ''run_started'', ''run_resumed''}"

definition check_schema :: "string \<Rightarrow> json \<Rightarrow> journal_error + unit" where
  "check_schema kind event =
     (case event_u64 event ''schema_version'' of
        Some version \<Rightarrow>
          ensure (kind \<notin> {''run_queued'', ''run_started''} \<or> version = 1 \<or> version = JOURNAL_SCHEMA_VERSION)
            (InvalidEvent (UnsupportedSchema version))
      | None \<Rightarrow> Inr ())"

definition apply_event :: "codec \<Rightarrow> json \<Rightarrow> run_state \<Rightarrow> journal_error + run_state" where
  "apply_event cx event st =
     and_then (accept_seq event st) (\<lambda>st.
     and_then (ok_or (event_str event ''t'') (InvalidEvent KindRequired)) (\<lambda>kind.
     and_then (check_owner kind event st) (\<lambda>_.
     and_then (ensure (is_known_journal_event_kind kind) (InvalidEvent (UnknownKind kind))) (\<lambda>_.
     and_then (ensure (\<not> is_final st \<or> restarts_run kind) (InvalidEvent (FinalRun kind))) (\<lambda>_.
     and_then (check_schema kind event) (\<lambda>_.
     dispatch cx kind event (note_search_cost kind event st)))))))"

section \<open>Folds and gates\<close>

fun fold_from :: "codec \<Rightarrow> run_state \<Rightarrow> json list \<Rightarrow> journal_error + run_state" where
  "fold_from cx st [] = Inr st"
| "fold_from cx st (event # events) =
     and_then (map_err (\<lambda>e. InvalidEvent (InvalidFlatEvent e)) (from_flat (cd_payload cx) event)) (\<lambda>_.
     and_then (apply_event cx event st) (\<lambda>st. fold_from cx st events))"

definition fold_values :: "codec \<Rightarrow> json list \<Rightarrow> journal_error + run_state" where
  "fold_values cx events = fold_from cx run_state_default events"

fun fold_through :: "codec \<Rightarrow> nat option \<Rightarrow> run_state \<Rightarrow> json list \<Rightarrow> journal_error + run_state" where
  "fold_through cx limit st [] = Inr st"
| "fold_through cx limit st (event # events) =
     and_then (map_err (\<lambda>e. InvalidEvent (InvalidFlatEvent e)) (from_flat (cd_payload cx) event)) (\<lambda>parsed.
     if (case limit of Some n \<Rightarrow> n < ev_seq parsed | None \<Rightarrow> False) then Inr st
     else and_then (apply_event cx event st) (\<lambda>st. fold_through cx limit st events))"

definition fold_journal_through :: "codec \<Rightarrow> nat option \<Rightarrow> json list \<Rightarrow> journal_error + run_state" where
  "fold_journal_through cx limit events = fold_through cx limit run_state_default events"

definition fold_journal :: "codec \<Rightarrow> json list \<Rightarrow> journal_error + run_state" where
  "fold_journal cx events = fold_journal_through cx None events"

definition ensure_no_inflight_operations :: "run_state \<Rightarrow> string + unit" where
  \<comment> \<open>the error names the operation\<close>
  "ensure_no_inflight_operations st =
     (case find (\<lambda>(_, saved). op_status saved = Started) (operation_records st) of
        Some (nid, _) \<Rightarrow> Inl nid | None \<Rightarrow> Inr ())"

definition ensure_no_fail_closed_inflight_operations :: "run_state \<Rightarrow> string + unit" where
  "ensure_no_fail_closed_inflight_operations st =
     (case find (\<lambda>(_, saved). op_status saved = Started \<and> op_on_indeterminate saved = RetryFail)
             (operation_records st) of
        Some (nid, _) \<Rightarrow> Inl nid | None \<Rightarrow> Inr ())"

definition settled_pending :: "run_state \<Rightarrow> interaction option" where
  "settled_pending st =
     (if elapsed_mode (budget st) = ActiveExecution
         \<and> (case elapsed (budget st) of None \<Rightarrow> True | Some ledger \<Rightarrow> active_started_at ledger \<noteq> None)
      then None else pending st)"

definition operation_id_for :: "(string \<Rightarrow> string) \<Rightarrow> string \<Rightarrow> string \<Rightarrow> string \<Rightarrow> string" where
  \<comment> \<open>\<open>sha256_hex\<close> is the hexadecimal SHA-256 digest\<close>
  "operation_id_for sha256_hex run node invocation = run @ '':'' @ node @ '':'' @ sha256_hex invocation"

end
