(* ===== verification/RunFold.thy ===== *)
theory RunFold
  imports RunState
begin

text \<open>
  Properties of the journal fold of \<open>RunState\<close>. The locale \<open>event_fold\<close> lifts facts about one step to
  whole journals; the fold of the journal is an interpretation of it. The shape lemmas say which fields
  each event handler may change, so that a property of some fields is a proof about the few handlers
  that change them.
\<close>

section \<open>Folding events\<close>

locale event_fold =
  fixes step :: "'e \<Rightarrow> 's \<Rightarrow> 'x + 's"
    and run :: "'s \<Rightarrow> 'e list \<Rightarrow> 'x + 's"
  assumes run_Nil: "run s [] = Inr s"
    and run_Cons: "run s (e # es) = and_then (step e s) (\<lambda>s. run s es)"
begin

lemma run_append: "run s (es @ fs) = and_then (run s es) (\<lambda>s. run s fs)"
proof (induction es arbitrary: s)
  case (Cons e es)
  then show ?case by (cases "step e s") (simp_all add: run_Cons)
qed (simp add: run_Nil)

lemma run_invariant:
  assumes "\<And>e s s'. P s \<Longrightarrow> step e s = Inr s' \<Longrightarrow> P s'" "run s es = Inr s'" "P s"
  shows "P s'"
  using assms(2,3)
proof (induction es arbitrary: s)
  case (Cons e es)
  then obtain s1 where "step e s = Inr s1" "run s1 es = Inr s'" by (auto simp: run_Cons and_then_Inr_iff)
  then show ?case using Cons assms(1) by blast
qed (simp add: run_Nil)

lemma run_member_invariant:
  assumes "\<And>e s s'. e \<in> set es \<Longrightarrow> P s \<Longrightarrow> step e s = Inr s' \<Longrightarrow> P s'" "run s es = Inr s'" "P s"
  shows "P s'"
  using assms
proof (induction es arbitrary: s)
  case (Cons e es)
  from Cons.prems(2) obtain s1 where s1: "step e s = Inr s1" "run s1 es = Inr s'"
    by (auto simp: run_Cons and_then_Inr_iff)
  have P1: "P s1" using Cons.prems(1) [OF _ Cons.prems(3) s1(1)] by simp
  show ?case by (rule Cons.IH [OF _ s1(2) P1]) (use Cons.prems(1) in auto)
qed (simp add: run_Nil)

lemma run_relation:
  assumes "\<And>s. R s s" "\<And>a b c. R a b \<Longrightarrow> R b c \<Longrightarrow> R a c" "\<And>e s s'. step e s = Inr s' \<Longrightarrow> R s s'"
    "run s es = Inr s'"
  shows "R s s'"
  using assms(4)
proof (induction es arbitrary: s)
  case (Cons e es)
  then obtain s1 where "step e s = Inr s1" "run s1 es = Inr s'" by (auto simp: run_Cons and_then_Inr_iff)
  then show ?case using Cons assms(2,3) by blast
qed (use assms(1) in \<open>simp add: run_Nil\<close>)

lemma run_sum:
  fixes f :: "'s \<Rightarrow> nat"
  assumes "\<And>e s s'. step e s = Inr s' \<Longrightarrow> f s' = f s + w e" "run s es = Inr s'"
  shows "f s' = f s + sum_list (map w es)"
  using assms(2)
proof (induction es arbitrary: s)
  case (Cons e es)
  then obtain s1 where "step e s = Inr s1" "run s1 es = Inr s'" by (auto simp: run_Cons and_then_Inr_iff)
  then show ?case using Cons.IH [of s1] assms(1) by simp
qed (simp add: run_Nil)

end

definition journal_step :: "codec \<Rightarrow> json \<Rightarrow> run_state \<Rightarrow> journal_error + run_state" where
  "journal_step cx event st =
     and_then (map_err (\<lambda>e. InvalidEvent (InvalidFlatEvent e)) (from_flat (cd_payload cx) event)) (\<lambda>_.
     apply_event cx event st)"

interpretation journal: event_fold "journal_step cx" "fold_from cx" for cx
proof
  fix s e es
  show "fold_from cx s (e # es) = and_then (journal_step cx e s) (\<lambda>s. fold_from cx s es)"
    unfolding journal_step_def by (cases "from_flat (cd_payload cx) e") simp_all
qed simp

section \<open>What a handler leaves alone\<close>

abbreviation same_seq :: "run_state \<Rightarrow> run_state \<Rightarrow> bool" where
  "same_seq st' st \<equiv> last_seq st' = last_seq st"

abbreviation same_identity :: "run_state \<Rightarrow> run_state \<Rightarrow> bool" where
  "same_identity st' st \<equiv> package_sha256 st' = package_sha256 st \<and> generator_id st' = generator_id st"

abbreviation same_files :: "run_state \<Rightarrow> run_state \<Rightarrow> bool" where
  "same_files st' st \<equiv> latest_file_pins st' = latest_file_pins st \<and> removed_files st' = removed_files st
     \<and> historical_file_pins st' = historical_file_pins st"

abbreviation same_prompts :: "run_state \<Rightarrow> run_state \<Rightarrow> bool" where
  "same_prompts st' st \<equiv> pending st' = pending st \<and> pending_seq st' = pending_seq st
     \<and> pending_interactions st' = pending_interactions st \<and> interaction_seqs st' = interaction_seqs st"

abbreviation same_operations :: "run_state \<Rightarrow> run_state \<Rightarrow> bool" where
  "same_operations st' st \<equiv> operation_records st' = operation_records st
     \<and> operation_attempts st' = operation_attempts st"

abbreviation same_budget :: "run_state \<Rightarrow> run_state \<Rightarrow> bool" where
  "same_budget st' st \<equiv> budget st' = budget st"

abbreviation same_executions :: "run_state \<Rightarrow> run_state \<Rightarrow> bool" where
  "same_executions st' st \<equiv> node_executions st' = node_executions st"

abbreviation same_vars :: "run_state \<Rightarrow> run_state \<Rightarrow> bool" where
  "same_vars st' st \<equiv> vars st' = vars st"

abbreviation same_terminal :: "run_state \<Rightarrow> run_state \<Rightarrow> bool" where
  "same_terminal st' st \<equiv> terminal st' = terminal st"

lemma project_interaction_frame [simp]:
  "same_seq (project_interaction st) st" "same_identity (project_interaction st) st"
  "same_files (project_interaction st) st" "same_operations (project_interaction st) st"
  "same_budget (project_interaction st) st" "same_executions (project_interaction st) st"
  "same_vars (project_interaction st) st" "same_terminal (project_interaction st) st"
  "pending_interactions (project_interaction st) = pending_interactions st"
  "interaction_seqs (project_interaction st) = interaction_seqs st"
  "nodes (project_interaction st) = nodes st" "checkpoints (project_interaction st) = checkpoints st"
  by (simp_all add: project_interaction_def split: list.split)

lemma retire_interaction_frame [simp]:
  "same_seq (retire_interaction path st) st" "same_identity (retire_interaction path st) st"
  "same_files (retire_interaction path st) st" "same_operations (retire_interaction path st) st"
  "same_budget (retire_interaction path st) st" "same_executions (retire_interaction path st) st"
  "same_vars (retire_interaction path st) st" "same_terminal (retire_interaction path st) st"
  "pending_interactions (retire_interaction path st) = bt_remove path (pending_interactions st)"
  "interaction_seqs (retire_interaction path st) = bt_remove path (interaction_seqs st)"
  by (simp_all add: retire_interaction_def Let_def split: option.split)

lemma install_interaction_cases:
  assumes "install_interaction cx event b st = Inr st'"
  obtains (absent) "st' = st"
    | (owned) owner prompt seqs where
        "seqs = (case event_u64 event ''seq'' of Some n \<Rightarrow> bt_insert owner n (bt_remove owner (interaction_seqs st))
                                           | None \<Rightarrow> bt_remove owner (interaction_seqs st))"
        "st' = project_interaction (st\<lparr>interaction_seqs := seqs,
                 pending_interactions := bt_insert owner prompt (pending_interactions st)\<rparr>)"
    | (unowned) prompt where "st' = st\<lparr>pending := Some prompt, pending_seq := event_u64 event ''seq''\<rparr>"
proof (cases "json_get event (if b then ''confirm'' else ''question'')")
  case None
  then show ?thesis using assms absent by (simp add: install_interaction_def)
next
  case (Some payload)
  then obtain prompt where prompt: "decode_interaction cx b payload = Some prompt"
    using assms by (cases "decode_interaction cx b payload") (auto simp: install_interaction_def)
  show ?thesis
  proof (cases "interaction_owner event prompt st")
    case None
    then show ?thesis
      using assms Some prompt unowned [of prompt] by (simp add: install_interaction_def)
  next
    case (Some owner)
    then show ?thesis
      using assms \<open>json_get event _ = Some payload\<close> prompt owned [OF refl, of owner prompt] by (simp add: install_interaction_def Let_def)
  qed
qed

lemma install_interaction_frame:
  assumes "install_interaction cx event b st = Inr st'"
  shows "same_seq st' st \<and> same_identity st' st \<and> same_files st' st \<and> same_operations st' st
    \<and> same_budget st' st \<and> same_executions st' st \<and> same_vars st' st \<and> same_terminal st' st"
  using assms by (cases rule: install_interaction_cases) simp_all

lemma apply_workspace_file_pins_frame [simp]:
  "same_seq (apply_workspace_file_pins pins st) st" "same_identity (apply_workspace_file_pins pins st) st"
  "same_prompts (apply_workspace_file_pins pins st) st" "same_operations (apply_workspace_file_pins pins st) st"
  "same_budget (apply_workspace_file_pins pins st) st" "same_executions (apply_workspace_file_pins pins st) st"
  "same_vars (apply_workspace_file_pins pins st) st" "same_terminal (apply_workspace_file_pins pins st) st"
  "historical_file_pins (apply_workspace_file_pins pins st) = historical_file_pins st"
  unfolding apply_workspace_file_pins_def by (induction pins arbitrary: st) simp_all

lemma settle_record_frame [simp]:
  "same_seq (settle_tasks path b (record_history pins st)) st"
  "same_identity (settle_tasks path b (record_history pins st)) st"
  "same_prompts (settle_tasks path b (record_history pins st)) st"
  "same_operations (settle_tasks path b (record_history pins st)) st"
  "same_budget (settle_tasks path b (record_history pins st)) st"
  "same_executions (settle_tasks path b (record_history pins st)) st"
  "same_vars (settle_tasks path b (record_history pins st)) st"
  "same_terminal (settle_tasks path b (record_history pins st)) st"
  "latest_file_pins (settle_tasks path b (record_history pins st)) = latest_file_pins st"
  "removed_files (settle_tasks path b (record_history pins st)) = removed_files st"
  by (simp_all add: settle_tasks_def record_history_def)

lemma suspended_not_succeeded: "is_suspended_status status \<Longrightarrow> \<not> is_succeeded_status status"
  by (auto simp: is_suspended_status_def is_succeeded_status_def)

lemma count_up_Inr_iff [result_simps]: "count_up what n k = Inr m \<longleftrightarrow> m = n + k \<and> n + k \<le> U64_MAX"
  by (auto simp: count_up_def ok_or_Inr_iff)

lemma record_node_execution_Inr:
  assumes "record_node_execution path st = Inr st'"
  shows "st' = st\<lparr>node_executions := bt_insert path (unwrap_or (bt_get (node_executions st) path) 0 + 1) (node_executions st)\<rparr>"
    "unwrap_or (bt_get (node_executions st) path) 0 + 1 \<le> U64_MAX"
  using assms by (auto simp: record_node_execution_def result_simps)

definition finish_node :: "string \<Rightarrow> run_state \<Rightarrow> run_state" where
  "finish_node path st = retire_interaction path (st\<lparr>checkpoints := bt_remove path (checkpoints st)\<rparr>)"

lemma apply_step_finished_cases:
  assumes "apply_step_finished cx event st = Inr st'"
  obtains (suspended) path status pins failed where
      "event_str event ''node'' = Some path" "event_str event ''status'' = Some status"
      "event_pins event ''files'' = Inr pins" "is_suspended_status status"
      "install_interaction cx event (status = ''needs_confirm'')
         (apply_workspace_file_pins pins (settle_tasks path False (record_history (pins @ failed) st))) = Inr st'"
    | (succeeded) path status pins failed st1 where
      "event_str event ''node'' = Some path" "event_str event ''status'' = Some status"
      "event_pins event ''files'' = Inr pins" "is_succeeded_status status" "\<not> is_suspended_status status"
      "record_success event path pins
         (apply_workspace_file_pins pins (settle_tasks path True (record_history (pins @ failed) st))) = Inr st1"
      "record_node_execution path (finish_node path st1) = Inr st'"
    | (unsuccessful) path status pins failed st1 where
      "event_str event ''node'' = Some path" "event_str event ''status'' = Some status"
      "\<not> is_succeeded_status status" "\<not> is_suspended_status status"
      "record_failure event path status (settle_tasks path False (record_history (pins @ failed) st)) = Inr st1"
      "record_node_execution path (finish_node path st1) = Inr st'"
proof -
  obtain path status pins failed where
    e: "event_str event ''node'' = Some path" "event_str event ''status'' = Some status"
    "event_pins event ''files'' = Inr pins" "event_pins event ''failed_files'' = Inr failed"
    using assms unfolding apply_step_finished_def and_then_Inr_iff ok_or_Inr_iff by blast
  note eq = assms [unfolded apply_step_finished_def e ok_or.simps and_then.simps Let_def finish_node_def [symmetric]]
  consider "is_suspended_status status" "\<not> is_succeeded_status status"
    | "is_succeeded_status status" "\<not> is_suspended_status status"
    | "\<not> is_suspended_status status" "\<not> is_succeeded_status status"
    using suspended_not_succeeded by blast
  then show ?thesis
  proof cases
    case 1
    then show ?thesis using eq suspended [OF e(1-3) 1(1)] by (simp add: and_then_Inr_iff)
  next
    case 2
    then show ?thesis using eq succeeded [OF e(1-3) 2] by (auto simp: and_then_Inr_iff)
  next
    case 3
    then show ?thesis using eq unsuccessful [OF e(1,2) 3(2,1)] by (auto simp: and_then_Inr_iff)
  qed
qed

lemma record_success_frame:
  assumes "record_success event path pins st = Inr st'"
  shows "same_seq st' st \<and> same_identity st' st \<and> same_files st' st \<and> same_prompts st' st
    \<and> same_operations st' st \<and> same_executions st' st \<and> same_terminal st' st
    \<and> budget st' = (budget st)\<lparr>steps_succeeded := steps_succeeded (budget st) + 1\<rparr>
    \<and> steps_succeeded (budget st) + 1 \<le> U64_MAX"
  using assms by (auto simp: record_success_def Let_def result_simps)

lemma record_failure_frame:
  assumes "record_failure event path status st = Inr st'"
  shows "same_seq st' st \<and> same_identity st' st \<and> same_files st' st \<and> same_prompts st' st
    \<and> same_operations st' st \<and> same_executions st' st \<and> same_terminal st' st
    \<and> budget st' = (budget st)\<lparr>steps_failed := steps_failed (budget st) + 1\<rparr>
    \<and> steps_failed (budget st) + 1 \<le> U64_MAX"
  using assms by (auto simp: record_failure_def Let_def result_simps)

lemma finish_node_frame [simp]:
  "same_seq (finish_node path st) st" "same_identity (finish_node path st) st"
  "same_files (finish_node path st) st" "same_operations (finish_node path st) st"
  "same_budget (finish_node path st) st" "same_executions (finish_node path st) st"
  "same_vars (finish_node path st) st" "same_terminal (finish_node path st) st"
  "pending_interactions (finish_node path st) = bt_remove path (pending_interactions st)"
  "interaction_seqs (finish_node path st) = bt_remove path (interaction_seqs st)"
  by (simp_all add: finish_node_def)

lemma apply_step_finished_frame:
  assumes "apply_step_finished cx event st = Inr st'"
  shows "same_seq st' st \<and> same_identity st' st \<and> same_operations st' st \<and> same_terminal st' st"
  using assms
proof (cases rule: apply_step_finished_cases)
  case suspended
  then show ?thesis using install_interaction_frame by fastforce
qed (auto dest!: record_success_frame record_failure_frame record_node_execution_Inr(1))

lemma idle_frames:
  assumes "h \<in> {on_agent_checkpoint, on_resource, on_cancel_requested, on_mcp_input_pending,
    on_mcp_continuation_resumed, on_run_forked}" "h cx kind event st = Inr st'"
  shows "same_seq st' st \<and> same_identity st' st \<and> same_files st' st \<and> same_prompts st' st \<and> same_operations st' st \<and> same_budget st' st \<and> same_executions st' st \<and> same_vars st' st \<and> same_terminal st' st"
  using assms
  by (auto simp: on_agent_checkpoint_def on_resource_def on_cancel_requested_def
      on_mcp_input_pending_def on_mcp_continuation_resumed_def on_run_forked_def Let_def result_simps
      split: option.splits prod.splits if_split_asm)

lemma if_either: "(if c then r else q) = t \<Longrightarrow> r = t \<or> q = t"
  by (cases c) simp_all

lemma if_Inr_cases: "(if c then r else Inr s) = Inr t \<Longrightarrow> t = s \<or> r = Inr t"
  by (cases c) simp_all

lemma if_bind_cases: "(if c then and_then r (\<lambda>x. Inr (f x)) else Inr s) = Inr t \<Longrightarrow> t = s \<or> (\<exists>x. t = f x)"
  by (cases c; cases r) auto

lemma report_iteration_frame:
  assumes "report_iteration event cls st = Inr st'"
  shows "same_seq st' st \<and> same_identity st' st \<and> same_files st' st \<and> same_prompts st' st \<and> same_operations st' st \<and> same_budget st' st \<and> same_executions st' st \<and> same_vars st' st \<and> same_terminal st' st"
  using assms unfolding report_iteration_def Let_def and_then_Inr_iff ok_or_Inr_iff by (auto simp del: not_None_eq)

lemma on_task_joined_frame:
  assumes "on_task_joined cx kind event st = Inr st'"
  shows "same_seq st' st \<and> same_identity st' st \<and> same_files st' st \<and> same_prompts st' st \<and> same_operations st' st \<and> same_budget st' st \<and> same_executions st' st \<and> same_vars st' st \<and> same_terminal st' st"
proof -
  define cls where "cls = unwrap_or (event_str event ''classification'') []"
  obtain st1 where st1: "(if \<not> \<not> is_reported_class cls \<and> kind \<noteq> ''parallel_task_joined''
      then report_iteration event cls st else Inr st) = Inr st1"
    and st': "(if \<not> is_reported_class cls then and_then (ok_or (Option.bind
               (event_str event (if kind \<noteq> ''parallel_task_joined'' then ''iteration'' else ''node''))
               (\<lambda>owner. if event_str event ''node'' \<noteq> None then Some owner else None))
             (InvalidEvent TaskOwnerRequired)) (\<lambda>owner.
           Inr (st1\<lparr>unresolved_tasks := bt_insert owner event (unresolved_tasks st1)\<rparr>)) else Inr st1) = Inr st'"
    using assms [unfolded on_task_joined_def Let_def cls_def [symmetric]] unfolding and_then_Inr_iff by (elim exE conjE)
  note 1 = if_Inr_cases [OF st1] and 2 = if_bind_cases [OF st']
  from 1 have "same_seq st1 st \<and> same_identity st1 st \<and> same_files st1 st \<and> same_prompts st1 st \<and> same_operations st1 st \<and> same_budget st1 st \<and> same_executions st1 st \<and> same_vars st1 st \<and> same_terminal st1 st" by (auto dest: report_iteration_frame)
  then show ?thesis using 2 by auto
qed

lemma budget_frames:
  assumes "h \<in> {on_step_started, on_elapsed_accounted, on_budget_charged, on_llm_call, on_repair_attempt_started,
    on_regenerate_attempt_started}" "h cx kind event st = Inr st'"
  shows "same_seq st' st \<and> same_identity st' st \<and> same_files st' st \<and> same_prompts st' st \<and> same_operations st' st \<and> same_executions st' st \<and> same_vars st' st \<and> same_terminal st' st"
  using assms
  by (auto simp: on_step_started_def on_elapsed_accounted_def on_budget_charged_def on_llm_call_def
      on_repair_attempt_started_def on_regenerate_attempt_started_def result_simps)

lemma patch_frames [simp]:
  "same_seq (patch_outputs event st) st" "same_identity (patch_outputs event st) st"
  "same_files (patch_outputs event st) st" "same_prompts (patch_outputs event st) st"
  "same_operations (patch_outputs event st) st" "same_budget (patch_outputs event st) st"
  "same_executions (patch_outputs event st) st" "same_terminal (patch_outputs event st) st"
  "same_seq (patch_run_inputs event st) st" "same_identity (patch_run_inputs event st) st"
  "same_files (patch_run_inputs event st) st" "same_prompts (patch_run_inputs event st) st"
  "same_operations (patch_run_inputs event st) st" "same_budget (patch_run_inputs event st) st"
  "same_executions (patch_run_inputs event st) st" "same_terminal (patch_run_inputs event st) st"
  by (simp_all add: patch_outputs_def patch_run_inputs_def split: option.split)

lemma on_state_patched_Inr:
  assumes "on_state_patched cx kind event st = Inr st'"
  obtains "st' = patch_outputs event (patch_run_inputs event st)"
    | m statuses where "event_object event ''step_statuses'' = Some m"
      "st' = (patch_outputs event (patch_run_inputs event st))\<lparr>vars := patch_step_statuses (bt_collect statuses)
                (vars (patch_outputs event (patch_run_inputs event st)))\<rparr>"
proof (cases "event_object event ''step_statuses''")
  case None
  then show ?thesis using assms that(1) by (simp add: on_state_patched_def)
next
  case (Some m)
  then show ?thesis
    using assms that(2) unfolding on_state_patched_def Let_def Some option.case and_then_Inr_iff sum.inject by blast
qed

lemma on_state_patched_frame:
  "on_state_patched cx kind event st = Inr st' \<Longrightarrow> same_seq st' st \<and> same_identity st' st \<and> same_files st' st \<and> same_prompts st' st \<and> same_operations st' st \<and> same_budget st' st \<and> same_executions st' st \<and> same_terminal st' st"
  by (erule on_state_patched_Inr) simp_all

lemma on_hook_failed_frame:
  assumes "on_hook_failed cx kind event st = Inr st'"
  shows "same_seq st' st \<and> same_identity st' st \<and> same_files st' st \<and> same_prompts st' st \<and> same_operations st' st \<and> same_budget st' st \<and> same_executions st' st \<and> same_terminal st' st
    \<and> (vars st' = vars st \<or> (\<exists>hook d. vars st' = set_step_outcome hook ''failed'' (Some (failure_value d)) (vars st)))"
proof (cases "event_str event ''hook''")
  case None
  then show ?thesis using assms by (simp add: on_hook_failed_def)
next
  case (Some hook)
  let ?d = "failure_detail_new ExecutionFailed (unwrap_or (event_str event ''error'') ''hook execution failed'')"
  define c where "c \<longleftrightarrow> get_path (vars st) (''steps.'' @ hook @ ''.status'') = None"
  define w where "w \<longleftrightarrow> event_str event ''policy'' = Some ''warn''"
  have "same_seq st' st \<and> same_identity st' st \<and> same_files st' st \<and> same_prompts st' st \<and> same_operations st' st \<and> same_budget st' st \<and> same_executions st' st \<and> same_terminal st' st \<and> vars st' = (if c then set_step_outcome hook ''failed'' (Some (failure_value ?d)) (vars st) else vars st)"
    using assms unfolding on_hook_failed_def Some option.case Let_def c_def [symmetric] w_def [symmetric] sum.inject
    by (cases c; cases w) auto
  then show ?thesis by (cases c) auto
qed

lemma on_hook_skipped_frame:
  assumes "on_hook_skipped cx kind event st = Inr st'"
  shows "same_seq st' st \<and> same_identity st' st \<and> same_files st' st \<and> same_prompts st' st \<and> same_operations st' st \<and> same_budget st' st \<and> same_executions st' st \<and> same_terminal st' st
    \<and> (vars st' = vars st \<or> (\<exists>hook d. vars st' = set_step_outcome hook ''skipped'' (Some (failure_value d)) (vars st)))"
proof (cases "event_str event ''hook''")
  case None
  then show ?thesis using assms by (simp add: on_hook_skipped_def)
next
  case (Some hook)
  let ?d = "failure_detail_new BudgetExceeded
    (unwrap_or (event_str event ''error'') ''hook skipped because the run budget was exhausted'')"
  have "same_seq st' st \<and> same_identity st' st \<and> same_files st' st \<and> same_prompts st' st \<and> same_operations st' st \<and> same_budget st' st \<and> same_executions st' st \<and> same_terminal st' st \<and> vars st' = set_step_outcome hook ''skipped'' (Some (failure_value ?d)) (vars st)"
    using assms unfolding on_hook_skipped_def Some option.case sum.inject by auto
  then show ?thesis by blast
qed

lemma on_mcp_continuation_consumed_frame:
  "on_mcp_continuation_consumed cx kind event st = Inr st' \<Longrightarrow> same_seq st' st \<and> same_identity st' st \<and> same_files st' st \<and> same_prompts st' st \<and> same_budget st' st \<and> same_executions st' st \<and> same_vars st' st \<and> same_terminal st' st \<and> operation_attempts st' = operation_attempts st"
  by (auto simp: on_mcp_continuation_consumed_def split: option.splits)

lemma on_operation_finished_frame:
  "on_operation_finished cx kind event st = Inr st' \<Longrightarrow> same_seq st' st \<and> same_identity st' st \<and> same_files st' st \<and> same_prompts st' st \<and> same_budget st' st \<and> same_executions st' st \<and> same_vars st' st \<and> same_terminal st' st \<and> operation_attempts st' = operation_attempts st"
  by (auto simp: on_operation_finished_def Let_def split: option.splits prod.splits)

lemma on_operation_started_frame:
  "on_operation_started cx kind event st = Inr st' \<Longrightarrow> same_seq st' st \<and> same_identity st' st \<and> same_files st' st \<and> same_prompts st' st \<and> same_budget st' st \<and> same_executions st' st \<and> same_vars st' st \<and> same_terminal st' st"
  by (cases "event_str event ''operation_id''") (auto simp: on_operation_started_def Let_def result_simps)

lemma on_run_resumed_frame:
  "on_run_resumed cx kind event st = Inr st' \<Longrightarrow> same_seq st' st \<and> same_identity st' st \<and> same_files st' st \<and> same_prompts st' st \<and> same_operations st' st \<and> same_budget st' st \<and> same_executions st' st \<and> same_vars st' st"
  by (auto simp: on_run_resumed_def)

lemma on_run_ended_frame:
  "on_run_ended cx kind event st = Inr st' \<Longrightarrow> same_seq st' st \<and> same_identity st' st \<and> same_files st' st \<and> same_operations st' st \<and> same_budget st' st \<and> same_executions st' st \<and> same_vars st' st"
  by (auto simp: on_run_ended_def)

lemma fold_file_frame [simp]:
  "same_seq (fold remove_file ps st) st" "same_identity (fold remove_file ps st) st"
  "same_prompts (fold remove_file ps st) st" "same_operations (fold remove_file ps st) st"
  "same_budget (fold remove_file ps st) st" "same_executions (fold remove_file ps st) st"
  "same_vars (fold remove_file ps st) st" "same_terminal (fold remove_file ps st) st"
  "historical_file_pins (fold remove_file ps st) = historical_file_pins st"
  "same_seq (fold restore_file ps st) st" "same_identity (fold restore_file ps st) st"
  "same_prompts (fold restore_file ps st) st" "same_operations (fold restore_file ps st) st"
  "same_budget (fold restore_file ps st) st" "same_executions (fold restore_file ps st) st"
  "same_vars (fold restore_file ps st) st" "same_terminal (fold restore_file ps st) st"
  "historical_file_pins (fold restore_file ps st) = historical_file_pins st"
  "latest_file_pins (fold restore_file ps st) = latest_file_pins st"
  by (induction ps arbitrary: st) (simp_all add: remove_file_def restore_file_def)

lemma on_agent_file_changes_Inr:
  assumes "on_agent_file_changes cx kind event st = Inr st'"
  obtains removed written where "list_all is_safe_relative_path (removed @ written)"
    "st' = fold restore_file written (fold remove_file removed st)"
proof -
  obtain parsed :: run_event where "(case ev_data parsed of
        AgentFileChanges removed written \<Rightarrow>
          and_then (ensure (list_all is_safe_relative_path (removed @ written)) (InvalidEvent UnsafeFileChange)) (\<lambda>_.
          Inr (fold restore_file written (fold remove_file removed st)))
      | _ \<Rightarrow> Inl (InvalidEvent InvalidFileChanges)) = Inr st'"
    using assms unfolding on_agent_file_changes_def and_then_Inr_iff by blast
  then show ?thesis by (cases "ev_data parsed") (auto simp: result_simps intro: that)
qed

lemma on_agent_file_changes_frame:
  "on_agent_file_changes cx kind event st = Inr st' \<Longrightarrow> same_seq st' st \<and> same_identity st' st \<and> same_prompts st' st \<and> same_operations st' st \<and> same_budget st' st \<and> same_executions st' st \<and> same_vars st' st \<and> same_terminal st' st"
  by (erule on_agent_file_changes_Inr) simp

lemma on_step_skipped_Inr:
  assumes "on_step_skipped cx kind event st = Inr st'"
  obtains n where "n = steps_skipped (budget st) + 1" "n \<le> U64_MAX"
      "st' = st\<lparr>budget := (budget st)\<lparr>steps_skipped := n\<rparr>\<rparr>"
    | n path reason where "n = steps_skipped (budget st) + 1" "n \<le> U64_MAX"
      "st' = (retire_interaction path (st\<lparr>budget := (budget st)\<lparr>steps_skipped := n\<rparr>,
                nodes := bt_insert path (OutcomeSkipped reason) (nodes st)\<rparr>))
             \<lparr>vars := set_step_outcome path ''skipped'' (Some (failure_value reason)) (vars st)\<rparr>"
proof (cases "event_str event ''node''")
  case None
  then show ?thesis
    using assms that(1) unfolding on_step_skipped_def Let_def None option.case and_then_Inr_iff count_up_Inr_iff sum.inject
    by (elim exE conjE) simp
next
  case (Some path)
  obtain n reason where e: "count_up ''skipped step count'' (steps_skipped (budget st)) 1 = Inr n"
    "(retire_interaction path (st\<lparr>budget := (budget st)\<lparr>steps_skipped := n\<rparr>,
                nodes := bt_insert path (OutcomeSkipped reason) (nodes st)\<rparr>))
             \<lparr>vars := set_step_outcome path ''skipped'' (Some (failure_value reason)) (vars st)\<rparr> = st'"
    using assms unfolding on_step_skipped_def Let_def Some option.case and_then_Inr_iff sum.inject
    by (elim exE conjE) simp
  show ?thesis by (rule that(2) [of n path reason]) (use e in \<open>simp_all add: count_up_Inr_iff\<close>)
qed

lemma on_step_skipped_frame:
  "on_step_skipped cx kind event st = Inr st' \<Longrightarrow> same_seq st' st \<and> same_identity st' st \<and> same_files st' st \<and> same_operations st' st \<and> same_executions st' st \<and> same_terminal st' st"
  by (erule on_step_skipped_Inr) simp_all

lemma record_response_frame:
  assumes "record_response kind event nid st = Inr st'"
  shows "same_seq st' st \<and> same_identity st' st \<and> same_files st' st \<and> same_prompts st' st \<and> same_operations st' st \<and> same_budget st' st \<and> same_executions st' st \<and> same_vars st' st \<and> same_terminal st' st"
  using if_either [OF assms [unfolded record_response_def]] by (elim disjE) (auto simp: result_simps)

definition drop_answered :: "string \<Rightarrow> json \<Rightarrow> run_state \<Rightarrow> run_state" where
  "drop_answered kind event st =
     (let left = bt_retain (\<lambda>_ prompt. \<not> answers_interaction kind event prompt) (pending_interactions st);
          st = st\<lparr>pending_interactions := left,
                  interaction_seqs := bt_retain (\<lambda>owner _. bt_contains_key left owner) (interaction_seqs st)\<rparr>
      in case pending st of
           Some prompt \<Rightarrow> if answers_interaction kind event prompt then project_interaction st else st
         | None \<Rightarrow> st)"

lemma drop_answered_frame [simp]:
  "same_seq (drop_answered kind event st) st" "same_identity (drop_answered kind event st) st"
  "same_files (drop_answered kind event st) st" "same_operations (drop_answered kind event st) st"
  "same_budget (drop_answered kind event st) st" "same_executions (drop_answered kind event st) st"
  "same_vars (drop_answered kind event st) st"
  "pending_interactions (drop_answered kind event st)
     = bt_retain (\<lambda>_ prompt. \<not> answers_interaction kind event prompt) (pending_interactions st)"
  "interaction_seqs (drop_answered kind event st) = bt_retain (\<lambda>owner _. bt_contains_key
     (bt_retain (\<lambda>_ prompt. \<not> answers_interaction kind event prompt) (pending_interactions st)) owner) (interaction_seqs st)"
  by (simp_all add: drop_answered_def Let_def split: option.split)

lemma on_response_Inr:
  assumes "on_response cx kind event st = Inr st'"
  obtains nid q st1 where "record_response kind event nid (st\<lparr>queued_at := q\<rparr>) = Inr st1"
    "st' = (drop_answered kind event st1)\<lparr>terminal := None\<rparr>"
  using assms unfolding on_response_def Let_def and_then_Inr_iff ok_or_Inr_iff drop_answered_def [unfolded Let_def, symmetric]
  by blast

lemma on_response_frame:
  "on_response cx kind event st = Inr st' \<Longrightarrow> same_seq st' st \<and> same_identity st' st \<and> same_files st' st \<and> same_operations st' st \<and> same_budget st' st \<and> same_executions st' st \<and> same_vars st' st"
  by (erule on_response_Inr) (drule record_response_frame, simp)

lemma on_request_Inr:
  assumes "on_request cx kind event st = Inr st'"
  obtains st1 where "st1 = st \<or> apply_step_finished cx (json_insert ''status'' (String ''needs_confirm'') event) st = Inr st1"
    "install_interaction cx event (kind = ''confirm_request'') st1 = Inr st'"
  using assms unfolding on_request_def and_then_Inr_iff by (elim exE conjE) (drule if_Inr_cases, rule that)

lemma on_request_frame:
  "on_request cx kind event st = Inr st' \<Longrightarrow>
   same_seq st' st \<and> same_identity st' st \<and> same_operations st' st \<and> same_terminal st' st"
  by (erule on_request_Inr) (auto dest!: apply_step_finished_frame install_interaction_frame)

definition admit_rest :: "bool \<Rightarrow> bool \<Rightarrow> json \<Rightarrow> run_state \<Rightarrow> run_state" where
  "admit_rest is_queued is_started event st =
     (let st = admit_start event (admit_inputs event st);
          st = (if is_queued then admit_queue event st else st);
          st = (if is_started then st\<lparr>execution_started := True\<rparr> else st)
      in admit_labels event st)"

lemma on_admission_Inr:
  assumes "on_admission cx kind event st = Inr st'"
  obtains mode st1 st2 where "admission_mode event = Inr mode" "admit_ledger mode st = Inr st1"
    "admit_identity event st1 = Inr st2"
    "st' = admit_rest (kind = ''run_queued'') (kind = ''run_started'') event st2"
  using assms unfolding on_admission_def and_then_Inr_iff Let_def admit_rest_def by blast

lemma admit_labels_frame [simp]:
  "same_seq (admit_labels event st) st" "same_identity (admit_labels event st) st"
  "same_files (admit_labels event st) st" "same_prompts (admit_labels event st) st"
  "same_operations (admit_labels event st) st" "same_executions (admit_labels event st) st"
  "same_budget (admit_labels event st) st" "same_vars (admit_labels event st) st"
  by (simp_all add: admit_labels_def split: option.split)

lemma admit_inputs_frame [simp]:
  "same_seq (admit_inputs event st) st" "same_identity (admit_inputs event st) st"
  "same_files (admit_inputs event st) st" "same_prompts (admit_inputs event st) st"
  "same_operations (admit_inputs event st) st" "same_executions (admit_inputs event st) st"
  "same_budget (admit_inputs event st) st"
  "vars (admit_inputs event st) = (case event_object event ''inputs'' of
     Some m \<Rightarrow> with_inputs (bt_collect m) | None \<Rightarrow> vars st)"
  by (simp_all add: admit_inputs_def split: option.split)

lemma admit_queue_frame [simp]:
  "same_seq (admit_queue event st) st" "same_identity (admit_queue event st) st"
  "same_files (admit_queue event st) st" "same_prompts (admit_queue event st) st"
  "same_operations (admit_queue event st) st" "same_executions (admit_queue event st) st"
  "same_budget (admit_queue event st) st" "same_vars (admit_queue event st) st"
  by (simp_all add: admit_queue_def)

lemma admit_rest_frame [simp]:
  "same_seq (admit_rest c d event st) st" "same_identity (admit_rest c d event st) st"
  "same_files (admit_rest c d event st) st" "same_prompts (admit_rest c d event st) st"
  "same_operations (admit_rest c d event st) st" "same_executions (admit_rest c d event st) st"
  "budget (admit_rest c d event st) = (if started_at (budget st) = None
     then (budget st)\<lparr>started_at := event_str event ''ts''\<rparr> else budget st)"
  "vars (admit_rest c d event st) = (case event_object event ''inputs'' of
     Some m \<Rightarrow> with_inputs (bt_collect m) | None \<Rightarrow> vars st)"
  unfolding admit_rest_def Let_def admit_start_def by (cases c; cases d; simp)+

lemma admit_ledger_Inr:
  assumes "admit_ledger mode st = Inr st'"
  obtains "st' = st\<lparr>budget := (budget st)\<lparr>elapsed_mode := mode\<rparr>\<rparr>" "mode = WallClock \<or> elapsed (budget st) \<noteq> None"
      "started_at (budget st) = None \<or> elapsed_mode (budget st) = mode"
    | "st' = st\<lparr>budget := (budget st)\<lparr>elapsed := Some \<lparr>active_nanoseconds = 0, active_started_at = None\<rparr>,
                                     elapsed_mode := mode\<rparr>\<rparr>"
      "mode = ActiveExecution" "elapsed (budget st) = None" "started_at (budget st) = None"
proof -
  have ok: "started_at (budget st) = None \<or> elapsed_mode (budget st) = mode"
    using assms unfolding admit_ledger_def by (rule contrapos_pp) simp
  show ?thesis
  proof (cases "mode = ActiveExecution \<and> elapsed (budget st) = None")
    case True
    then have "started_at (budget st) = None"
      using assms unfolding admit_ledger_def by (rule_tac ccontr) (simp split: if_split_asm)
    moreover have "st' = st\<lparr>budget := (budget st)\<lparr>elapsed := Some \<lparr>active_nanoseconds = 0, active_started_at = None\<rparr>,
                                     elapsed_mode := mode\<rparr>\<rparr>"
      using assms True ok unfolding admit_ledger_def by (simp split: if_split_asm)
    ultimately show ?thesis using True by (intro that(2)) simp_all
  next
    case False
    then have "mode = WallClock \<or> elapsed (budget st) \<noteq> None" by (cases mode) simp_all
    moreover have "st' = st\<lparr>budget := (budget st)\<lparr>elapsed_mode := mode\<rparr>\<rparr>"
      using assms ok unfolding admit_ledger_def if_not_P [OF False] by (simp split: if_split_asm)
    ultimately show ?thesis using ok by (intro that(1))
  qed
qed

lemma admit_identity_Inr:
  assumes "admit_identity event st = Inr st'"
  shows "same_seq st' st \<and> same_files st' st \<and> same_prompts st' st \<and> same_operations st' st \<and> same_executions st' st
    \<and> same_budget st' st \<and> same_vars st' st
    \<and> (package_sha256 st \<noteq> None \<longrightarrow> package_sha256 st' = package_sha256 st)
    \<and> (generator_id st \<noteq> None \<longrightarrow> generator_id st' = generator_id st)"
  using assms unfolding admit_identity_def and_then_Inr_iff ensure_Inr_iff
  by (elim exE conjE) (auto split: option.split)

lemma on_admission_frame:
  assumes "on_admission cx kind event st = Inr st'"
  shows "same_seq st' st \<and> same_files st' st \<and> same_prompts st' st \<and> same_operations st' st \<and> same_executions st' st"
  using assms
  by (rule on_admission_Inr) (erule admit_ledger_Inr; drule admit_identity_Inr; simp)

end
