(* ===== verification/RunInvariants.thy ===== *)
theory RunInvariants
  imports RunFold
begin

text \<open>
  What holds of every state that a journal folds to: the order of events, the identity of the run,
  the pins of its files, its prompts, its budget and its external operations.
\<close>

section \<open>One event\<close>

lemma accept_seq_Inr:
  assumes "accept_seq event st = Inr st'"
  obtains "event_u64 event ''seq'' = None" "st' = st"
    | n where "event_u64 event ''seq'' = Some n" "last_seq st < n" "st' = st\<lparr>last_seq := n\<rparr>"
  using assms by (cases "event_u64 event ''seq''") (auto simp: accept_seq_def split: if_split_asm)

lemma dispatch_cases:
  assumes "dispatch cx kind event st = Inr st'"
  obtains (handled) h where "(kind, h) \<in> set handlers" "h cx kind event st = Inr st'"
    | (ignored) "map_of handlers kind = None" "st' = st"
  using assms by (cases "map_of handlers kind") (auto simp: dispatch_def dest: map_of_SomeD)

lemma apply_event_Inr:
  assumes "apply_event cx event st = Inr st'"
  obtains kind st1 where "accept_seq event st = Inr st1" "event_str event ''t'' = Some kind"
    "check_owner kind event st1 = Inr ()" "is_known_journal_event_kind kind" "\<not> is_final st1 \<or> restarts_run kind"
    "check_schema kind event = Inr ()" "dispatch cx kind event (note_search_cost kind event st1) = Inr st'"
  using assms unfolding apply_event_def and_then_Inr_iff ok_or_Inr_iff ensure_Inr_iff by (elim exE conjE) (rule that, simp_all)

lemma from_flat_Inr:
  assumes "from_flat decode event = Inr parsed"
  obtains m where "event = Object m" "event_u64 event ''seq'' = Some (ev_seq parsed)"
    "event_str event ''ts'' = Some (ev_ts parsed)" "event_str event ''t'' = Some (ev_kind parsed)"
    "event_str event ''run_id'' = Some (ev_run_id parsed)"
  using assms by (cases event) (auto simp: from_flat_def required_string_def result_simps)

lemma journal_step_Inr:
  assumes "journal_step cx event st = Inr st'"
  obtains parsed where "from_flat (cd_payload cx) event = Inr parsed" "apply_event cx event st = Inr st'"
  using assms unfolding journal_step_def and_then_Inr_iff map_err_Inr_iff by blast

lemma note_search_cost_frame [simp]:
  "same_seq (note_search_cost kind event st) st" "same_identity (note_search_cost kind event st) st"
  "same_files (note_search_cost kind event st) st" "same_prompts (note_search_cost kind event st) st"
  "same_operations (note_search_cost kind event st) st" "same_executions (note_search_cost kind event st) st"
  "same_vars (note_search_cost kind event st) st" "same_terminal (note_search_cost kind event st) st"
  "\<exists>b. budget (note_search_cost kind event st) = (budget st)\<lparr>unresolved_search_cost := b\<rparr>"
proof -
  obtain c where c: "c \<longleftrightarrow> kind \<in> {''llm_call'', ''llm_route_failed''}" by blast
  show "same_seq (note_search_cost kind event st) st" "same_identity (note_search_cost kind event st) st"
    "same_files (note_search_cost kind event st) st" "same_prompts (note_search_cost kind event st) st"
    "same_operations (note_search_cost kind event st) st" "same_executions (note_search_cost kind event st) st"
    "same_vars (note_search_cost kind event st) st" "same_terminal (note_search_cost kind event st) st"
    unfolding note_search_cost_def c [symmetric] by (cases c; simp)+
  show "\<exists>b. budget (note_search_cost kind event st) = (budget st)\<lparr>unresolved_search_cost := b\<rparr>"
  proof (cases c)
    case True
    then show ?thesis unfolding note_search_cost_def c [symmetric] if_P [OF True] by auto
  next
    case False
    then have "budget (note_search_cost kind event st) = (budget st)\<lparr>unresolved_search_cost := unresolved_search_cost (budget st)\<rparr>"
      unfolding note_search_cost_def c [symmetric] if_not_P [OF False] by (cases "budget st") simp
    then show ?thesis by blast
  qed
qed

section \<open>Every handler keeps the sequence number\<close>

lemma handlers_cases:
  assumes "(kind, h) \<in> set handlers"
  obtains "h \<in> {on_agent_checkpoint, on_resource, on_cancel_requested, on_mcp_input_pending,
      on_mcp_continuation_resumed, on_run_forked}"
    | "h \<in> {on_step_started, on_elapsed_accounted, on_budget_charged, on_llm_call, on_repair_attempt_started,
      on_regenerate_attempt_started}"
    | "h = on_admission" "kind \<in> {''run_queued'', ''run_started''}"
    | "h = on_run_resumed" "kind = ''run_resumed''"
    | "h = on_run_ended" | "h = on_task_joined" | "h = on_state_patched" | "h = on_hook_failed" | "h = on_hook_skipped"
    | "h = on_agent_file_changes" | "h = on_step_finished" | "h = on_step_skipped" | "h = on_request" | "h = on_response"
    | "h = on_mcp_continuation_consumed" | "h = on_operation_started" | "h = on_operation_finished"
  using assms unfolding handlers_def set_simps insert_iff prod.inject empty_iff by (elim disjE conjE) (simp_all add: that)

lemmas handler_frames = idle_frames budget_frames on_admission_frame on_run_resumed_frame on_run_ended_frame
  on_task_joined_frame on_state_patched_frame on_hook_failed_frame on_hook_skipped_frame on_agent_file_changes_frame
  on_step_skipped_frame on_request_frame on_response_frame on_mcp_continuation_consumed_frame on_operation_started_frame
  on_operation_finished_frame

lemma handler_seq:
  assumes "(kind, h) \<in> set handlers" "h cx kind event st = Inr st'"
  shows "last_seq st' = last_seq st"
  using assms(1)
proof (cases rule: handlers_cases)
  case 1
  then show ?thesis using idle_frames assms(2) by blast
next
  case 2
  then show ?thesis using budget_frames assms(2) by blast
next
  case 11
  then show ?thesis using assms(2) by (simp add: on_step_finished_def apply_step_finished_frame)
qed (use assms(2) in \<open>auto dest: handler_frames\<close>)

lemma apply_event_seq:
  assumes "apply_event cx event st = Inr st'"
  shows "last_seq st' = (case event_u64 event ''seq'' of Some n \<Rightarrow> n | None \<Rightarrow> last_seq st)
    \<and> (\<forall>n. event_u64 event ''seq'' = Some n \<longrightarrow> last_seq st < n)"
  using assms
proof (rule apply_event_Inr)
  fix kind st1
  assume "accept_seq event st = Inr st1" "dispatch cx kind event (note_search_cost kind event st1) = Inr st'"
  moreover from this(2) have "last_seq st' = last_seq st1"
    by (rule dispatch_cases) (auto dest: handler_seq)
  ultimately show ?thesis by (auto elim!: accept_seq_Inr)
qed

definition event_seq :: "json \<Rightarrow> nat" where
  "event_seq event = (case event_u64 event ''seq'' of Some n \<Rightarrow> n | None \<Rightarrow> 0)"

lemma journal_step_seq:
  assumes "journal_step cx event st = Inr st'"
  shows "last_seq st' = event_seq event \<and> last_seq st < event_seq event"
  using assms by (rule journal_step_Inr) (auto elim!: from_flat_Inr dest!: apply_event_seq simp: event_seq_def)

lemma fold_from_seq:
  assumes "fold_from cx st events = Inr st'"
  shows "sorted_wrt (<) (map event_seq events) \<and> (\<forall>e\<in>set events. last_seq st < event_seq e)
    \<and> last_seq st' = (if events = [] then last_seq st else event_seq (last events))"
  using assms
proof (induction events arbitrary: st)
  case (Cons e events)
  then obtain st1 where "journal_step cx e st = Inr st1" "fold_from cx st1 events = Inr st'"
    unfolding journal.run_Cons and_then_Inr_iff by blast
  then show ?case using Cons.IH [of st1] journal_step_seq [of cx e st st1] by fastforce
qed simp

section \<open>Files\<close>

definition recorded :: "run_state \<Rightarrow> string \<Rightarrow> string \<Rightarrow> bool" where
  \<comment> \<open>a revision of a path that the history holds\<close>
  "recorded st path digest \<longleftrightarrow>
     (\<exists>revisions. bt_get (historical_file_pins st) path = Some revisions \<and> bt_get revisions digest = Some ())"

definition files_inv :: "run_state \<Rightarrow> bool" where
  "files_inv st \<longleftrightarrow>
     (\<forall>path. bt_get (removed_files st) path \<noteq> None \<longrightarrow> bt_get (latest_file_pins st) path = None)
     \<and> (\<forall>path digest. bt_get (latest_file_pins st) path = Some digest \<longrightarrow> recorded st path digest)"

lemma files_inv_frame: "files_inv st \<Longrightarrow> same_files st' st \<Longrightarrow> files_inv st'"
  by (simp add: files_inv_def recorded_def)

lemma files_inv_file:
  assumes "files_inv st"
  shows "files_inv (remove_file path st)" "files_inv (restore_file path st)"
  using assms by (simp_all add: files_inv_def recorded_def remove_file_def restore_file_def)

lemma files_inv_remove: "files_inv st \<Longrightarrow> files_inv (fold remove_file paths st)"
  by (induction paths arbitrary: st) (simp_all add: files_inv_file)

lemma files_inv_restore: "files_inv st \<Longrightarrow> files_inv (fold restore_file paths st)"
  by (induction paths arbitrary: st) (simp_all add: files_inv_file)

lemma recorded_history:
  "recorded (record_history pins st) path digest \<longleftrightarrow>
     recorded st path digest \<or> (\<exists>pin\<in>set pins. pin_path pin = path \<and> pin_sha256 pin = digest)"
proof (induction pins arbitrary: st)
  case (Cons pin pins)
  have "record_history (pin # pins) st = record_history pins (record_history [pin] st)"
    by (simp add: record_history_def)
  moreover have "recorded (record_history [pin] st) path digest \<longleftrightarrow>
      recorded st path digest \<or> pin_path pin = path \<and> pin_sha256 pin = digest"
    by (auto simp: recorded_def record_history_def unwrap_or_def split: option.splits)
  ultimately show ?case using Cons by auto
qed (simp add: record_history_def)

lemma files_inv_history: "files_inv st \<Longrightarrow> files_inv (settle_tasks path b (record_history pins st))"
  using recorded_history [of pins st]
  by (auto simp: files_inv_def settle_tasks_def recorded_def record_history_def)

lemma files_inv_pins:
  assumes "files_inv st" "\<forall>pin\<in>set pins. recorded st (pin_path pin) (pin_sha256 pin)"
  shows "files_inv (apply_workspace_file_pins pins st)"
  using assms
proof (induction pins arbitrary: st)
  case (Cons pin pins)
  let ?st = "st\<lparr>latest_file_pins := bt_insert (pin_path pin) (pin_sha256 pin) (latest_file_pins st),
               removed_files := bt_remove (pin_path pin) (removed_files st)\<rparr>"
  have "files_inv ?st" using Cons.prems by (auto simp: files_inv_def recorded_def)
  moreover have "\<forall>pin\<in>set pins. recorded ?st (pin_path pin) (pin_sha256 pin)"
    using Cons.prems(2) by (simp add: recorded_def)
  ultimately show ?case using Cons.IH [of ?st] by (simp add: apply_workspace_file_pins_def)
qed (simp add: apply_workspace_file_pins_def)

lemma files_inv_step_finished:
  assumes "apply_step_finished cx event st = Inr st'" "files_inv st"
  shows "files_inv st'"
proof -
  have pins: "files_inv (apply_workspace_file_pins pins (settle_tasks path b (record_history (pins @ failed) st)))"
    for pins failed path b
    using assms(2) recorded_history [of "pins @ failed" st]
    by (intro files_inv_pins files_inv_history) (auto simp: settle_tasks_def recorded_def)
  show ?thesis
    using assms(1)
  proof (cases rule: apply_step_finished_cases)
    case suspended
    then show ?thesis using install_interaction_frame pins files_inv_frame by blast
  next
    case (succeeded path status pins failed st1)
    then have "same_files st' (apply_workspace_file_pins pins (settle_tasks path True (record_history (pins @ failed) st)))"
      by (auto dest!: record_success_frame record_node_execution_Inr(1))
    then show ?thesis using pins files_inv_frame by blast
  next
    case (unsuccessful path status pins failed st1)
    then have "same_files st' (settle_tasks path False (record_history (pins @ failed) st))"
      by (auto dest!: record_failure_frame record_node_execution_Inr(1))
    then show ?thesis using files_inv_history [OF assms(2)] files_inv_frame by blast
  qed
qed

lemma files_inv_handler:
  assumes "(kind, h) \<in> set handlers" "h cx kind event st = Inr st'" "files_inv st"
  shows "files_inv st'"
  using assms(1)
proof (cases rule: handlers_cases)
  case 1
  then show ?thesis using idle_frames assms(2) files_inv_frame [OF assms(3)] by blast
next
  case 2
  then show ?thesis using budget_frames assms(2) files_inv_frame [OF assms(3)] by blast
next
  case 10
  show ?thesis using assms(2,3) unfolding 10
    by (elim on_agent_file_changes_Inr) (simp add: files_inv_restore files_inv_remove)
next
  case 11
  then show ?thesis using assms(2,3) files_inv_step_finished by (simp add: on_step_finished_def)
next
  case 13
  show ?thesis using assms(2) unfolding 13
  proof (rule on_request_Inr)
    fix st1
    assume "st1 = st \<or> apply_step_finished cx (json_insert ''status'' (String ''needs_confirm'') event) st = Inr st1"
      and install: "install_interaction cx event (kind = ''confirm_request'') st1 = Inr st'"
    then have "files_inv st1" using files_inv_step_finished assms(3) by blast
    then show ?thesis using install_interaction_frame [OF install] files_inv_frame by blast
  qed
qed (use assms(2) in \<open>auto dest: handler_frames intro: files_inv_frame [OF assms(3)]\<close>)

definition seq_known :: "json \<Rightarrow> run_state \<Rightarrow> bool" where
  "seq_known event st \<longleftrightarrow> (\<forall>n. event_u64 event ''seq'' = Some n \<longrightarrow> n \<le> last_seq st)"

lemma apply_event_invariant:
  assumes "apply_event cx event st = Inr st'" "P st"
    "\<And>n st. P st \<Longrightarrow> last_seq st < n \<Longrightarrow> P (st\<lparr>last_seq := n\<rparr>)" "\<And>kind st. P st \<Longrightarrow> P (note_search_cost kind event st)"
    "\<And>kind h st st'. (kind, h) \<in> set handlers \<Longrightarrow> event_str event ''t'' = Some kind \<Longrightarrow> seq_known event st \<Longrightarrow>
       h cx kind event st = Inr st' \<Longrightarrow> P st \<Longrightarrow> P st'"
  shows "P st'"
  using assms(1)
proof (rule apply_event_Inr)
  fix kind st1
  assume a: "accept_seq event st = Inr st1" "dispatch cx kind event (note_search_cost kind event st1) = Inr st'"
    "event_str event ''t'' = Some kind"
  have "P st1" using a(1) assms(2,3) by (auto elim: accept_seq_Inr)
  then have n: "P (note_search_cost kind event st1)" by (rule assms(4))
  have k: "seq_known event (note_search_cost kind event st1)"
    using a(1) by (auto simp: seq_known_def elim: accept_seq_Inr)
  show ?thesis using a(2)
  proof (cases rule: dispatch_cases)
    case (handled h)
    show ?thesis by (rule assms(5) [OF handled(1) a(3) k handled(2) n])
  qed (use n in simp)
qed

lemma files_inv_journal_step: "journal_step cx event st = Inr st' \<Longrightarrow> files_inv st \<Longrightarrow> files_inv st'"
proof (erule journal_step_Inr)
  assume a: "apply_event cx event st = Inr st'" "files_inv st"
  show "files_inv st'"
  proof (rule apply_event_invariant [where P = files_inv, OF a])
    show "files_inv (st\<lparr>last_seq := n\<rparr>)" if "files_inv st" "last_seq st < n" for n st by (rule files_inv_frame [OF that(1)]) simp
    show "files_inv (note_search_cost kind event st)" if "files_inv st" for kind st
      by (rule files_inv_frame [OF that]) simp
  qed (blast intro: files_inv_handler)
qed

section \<open>Prompts\<close>











section \<open>Lineage and active time\<close>

abbreviation same_clock :: "run_state \<Rightarrow> run_state \<Rightarrow> bool" where
  "same_clock st' st \<equiv> started_at (budget st') = started_at (budget st)
     \<and> elapsed_mode (budget st') = elapsed_mode (budget st) \<and> elapsed (budget st') = elapsed (budget st)"

lemma count_tokens_clock:
  assumes "count_tokens toks b = Inr b'"
  shows "started_at b' = started_at b \<and> elapsed_mode b' = elapsed_mode b \<and> elapsed b' = elapsed b"
  using assms unfolding count_tokens_def and_then_Inr_iff by (elim exE conjE) auto

lemma on_llm_call_clock: "on_llm_call cx kind event st = Inr st' \<Longrightarrow> same_clock st' st"
  unfolding on_llm_call_def and_then_Inr_iff
  by (elim exE conjE) (auto dest!: count_tokens_clock split: option.splits)

lemma step_finished_clock:
  assumes "apply_step_finished cx event st = Inr st'"
  shows "same_clock st' st"
  using assms
proof (cases rule: apply_step_finished_cases)
  case suspended
  then show ?thesis using install_interaction_frame by fastforce
qed (auto dest!: record_success_frame record_failure_frame record_node_execution_Inr(1))

lemma on_request_clock: "on_request cx kind event st = Inr st' \<Longrightarrow> same_clock st' st"
  by (erule on_request_Inr) (auto dest!: step_finished_clock install_interaction_frame)

lemma on_elapsed_accounted_Inr:
  assumes "on_elapsed_accounted cx kind event st = Inr st'"
  obtains ledger where "legal_ledger (elapsed (budget st)) ledger"
    "st' = st\<lparr>budget := (budget st)\<lparr>elapsed := Some ledger\<rparr>\<rparr>"
  using assms unfolding on_elapsed_accounted_def and_then_Inr_iff ensure_Inr_iff sum.inject
  by (elim exE conjE) (rule that, assumption, rule sym)

definition lineage :: "run_state \<Rightarrow> run_state \<Rightarrow> bool" where
  "lineage st st' \<longleftrightarrow>
     (package_sha256 st \<noteq> None \<longrightarrow> package_sha256 st' = package_sha256 st)
     \<and> (generator_id st \<noteq> None \<longrightarrow> generator_id st' = generator_id st)
     \<and> (started_at (budget st) \<noteq> None \<longrightarrow> started_at (budget st') = started_at (budget st)
          \<and> elapsed_mode (budget st') = elapsed_mode (budget st))
     \<and> (\<forall>ledger. elapsed (budget st) = Some ledger \<longrightarrow>
          (\<exists>ledger'. elapsed (budget st') = Some ledger' \<and> active_nanoseconds ledger \<le> active_nanoseconds ledger'))"

lemma lineage_refl: "lineage st st"
  by (simp add: lineage_def)

lemma lineage_ledger:
  assumes "lineage st st'" "elapsed (budget st) = Some ledger"
  obtains ledger' where "elapsed (budget st') = Some ledger'" "active_nanoseconds ledger \<le> active_nanoseconds ledger'"
  using assms unfolding lineage_def by blast

lemma lineage_trans:
  assumes "lineage a b" "lineage b c"
  shows "lineage a c"
proof -
  have "\<exists>ledger'. elapsed (budget c) = Some ledger' \<and> active_nanoseconds ledger \<le> active_nanoseconds ledger'"
    if "elapsed (budget a) = Some ledger" for ledger
    using assms that by (meson lineage_ledger order_trans)
  moreover have "package_sha256 a \<noteq> None \<longrightarrow> package_sha256 c = package_sha256 a"
    "generator_id a \<noteq> None \<longrightarrow> generator_id c = generator_id a"
    "started_at (budget a) \<noteq> None \<longrightarrow> started_at (budget c) = started_at (budget a)
          \<and> elapsed_mode (budget c) = elapsed_mode (budget a)"
    using assms unfolding lineage_def by (simp_all del: not_None_eq)
  ultimately show ?thesis unfolding lineage_def by blast
qed

lemma lineage_frame: "same_identity st' st \<Longrightarrow> same_clock st' st \<Longrightarrow> lineage st st'"
  by (simp add: lineage_def)

lemma lineage_same: "same_identity st' st \<Longrightarrow> same_budget st' st \<Longrightarrow> lineage st st'"
  by (simp add: lineage_def)

lemma lineage_admission:
  assumes "on_admission cx kind event st = Inr st'"
  shows "lineage st st'"
  using assms
proof (rule on_admission_Inr)
  fix mode st1 st2
  assume m: "admit_ledger mode st = Inr st1" "admit_identity event st1 = Inr st2"
    and st': "st' = admit_rest (kind = ''run_queued'') (kind = ''run_started'') event st2"
  have "same_identity st1 st \<and> (started_at (budget st) \<noteq> None \<longrightarrow>
      started_at (budget st1) = started_at (budget st) \<and> elapsed_mode (budget st1) = elapsed_mode (budget st))
    \<and> (elapsed (budget st) \<noteq> None \<longrightarrow> elapsed (budget st1) = elapsed (budget st))"
    using m(1)
  proof (cases rule: admit_ledger_Inr)
    case 1
    then show ?thesis by auto
  next
    case 2
    then show ?thesis by simp
  qed
  moreover have "budget st2 = budget st1" using admit_identity_Inr [OF m(2)] by blast
  moreover have "package_sha256 st1 \<noteq> None \<longrightarrow> package_sha256 st2 = package_sha256 st1"
      "generator_id st1 \<noteq> None \<longrightarrow> generator_id st2 = generator_id st1"
    using admit_identity_Inr [OF m(2)] by blast+
  ultimately show ?thesis unfolding lineage_def st' by (simp del: not_None_eq)
qed

lemma lineage_handler:
  assumes "(kind, h) \<in> set handlers" "h cx kind event st = Inr st'"
  shows "lineage st st'"
  using assms(1)
proof (cases rule: handlers_cases)
  case 1
  then show ?thesis using idle_frames [OF 1 assms(2)] by (intro lineage_frame) simp_all
next
  case 2
  then consider "h = on_elapsed_accounted" | "same_clock st' st"
    using assms(2)
    by (auto simp: on_step_started_def on_budget_charged_def on_repair_attempt_started_def
        on_regenerate_attempt_started_def result_simps dest: on_llm_call_clock)
  then show ?thesis
  proof cases
    case 1
    show ?thesis using assms(2) unfolding 1
    proof (rule on_elapsed_accounted_Inr)
      fix ledger
      assume "legal_ledger (elapsed (budget st)) ledger" "st' = st\<lparr>budget := (budget st)\<lparr>elapsed := Some ledger\<rparr>\<rparr>"
      then show ?thesis by (auto simp: lineage_def legal_ledger_def split: option.splits)
    qed
  qed (use budget_frames [OF 2 assms(2)] in \<open>simp add: lineage_frame\<close>)
next
  case 3
  then show ?thesis using assms(2) lineage_admission by blast
next
  case 11
  then show ?thesis using assms(2)
    by (auto simp: on_step_finished_def intro!: lineage_frame dest: step_finished_clock apply_step_finished_frame)
next
  case 12
  show ?thesis using assms(2) unfolding 12 by (elim on_step_skipped_Inr) (simp_all add: lineage_frame)
next
  case 13
  then show ?thesis using assms(2) by (auto intro!: lineage_frame dest: on_request_clock on_request_frame)
qed (use assms(2) in \<open>auto dest: handler_frames intro: lineage_same\<close>)

lemma note_search_cost_clock: "same_clock (note_search_cost kind event st) st"
  using note_search_cost_frame(9) [of kind event st] by (elim exE) simp

lemma lineage_journal_step:
  assumes "journal_step cx event st = Inr st'"
  shows "lineage st st'"
  using assms
proof (rule journal_step_Inr)
  assume "apply_event cx event st = Inr st'"
  then show ?thesis
  proof (rule apply_event_Inr)
    fix kind st1
    assume a: "accept_seq event st = Inr st1" "dispatch cx kind event (note_search_cost kind event st1) = Inr st'"
    have "lineage st st1" using a(1) by (rule accept_seq_Inr) (simp_all add: lineage_frame)
    moreover have "lineage st1 (note_search_cost kind event st1)"
      by (rule lineage_frame) (simp_all add: note_search_cost_clock)
    moreover have "lineage (note_search_cost kind event st1) st'"
      using a(2) by (rule dispatch_cases) (simp_all add: lineage_handler lineage_refl)
    ultimately show ?thesis by (blast intro: lineage_trans)
  qed
qed

lemma lineage_fold: "fold_from cx st events = Inr st' \<Longrightarrow> lineage st st'"
  by (rule journal.run_relation [where R = lineage]) (blast intro: lineage_refl lineage_trans lineage_journal_step)+

section \<open>Final runs\<close>

lemma journal_step_final:
  assumes "journal_step cx event st = Inr st'" "is_final st"
  obtains kind where "event_str event ''t'' = Some kind" "restarts_run kind"
  using assms(1)
proof (rule journal_step_Inr)
  assume "apply_event cx event st = Inr st'"
  then show ?thesis
  proof (rule apply_event_Inr)
    fix kind st1
    assume "accept_seq event st = Inr st1" "event_str event ''t'' = Some kind" "\<not> is_final st1 \<or> restarts_run kind"
    moreover from this(1) have "is_final st1" using assms(2) by (auto simp: is_final_def elim: accept_seq_Inr)
    ultimately show ?thesis using that by blast
  qed
qed

section \<open>Properties\<close>

definition sample_codec :: codec where
  "sample_codec =
     \<lparr>cd_payload = (\<lambda>_ v. Some v), cd_rfc3339 = (\<lambda>_. True),
      cd_form = (\<lambda>v. map_option (\<lambda>nid. \<lparr>form_id = nid, form_title = [], form_title_i18n = [], form_fields = []\<rparr>)
        (json_as_str v)),
      cd_confirm = (\<lambda>_. None)\<rparr>"

definition sample_event :: "string \<Rightarrow> nat \<Rightarrow> (string \<times> json) list \<Rightarrow> json" where
  "sample_event kind seq extra =
     Object ([(''run_id'', String ''r''), (''seq'', Number (PosInt seq)), (''span_id'', String ''y''),
       (''t'', String kind), (''trace_id'', String ''x''), (''ts'', String ''z'')] @ extra)"

lemmas event_eval = sample_event_def apply_event_def accept_seq_def check_owner_def check_schema_def
  is_known_journal_event_kind_def is_known_run_event_kind_def PUBLIC_RUN_EVENT_KINDS_def INTERNAL_RUN_EVENT_KINDS_def
  is_final_def restarts_run_def note_search_cost_def dispatch_def handlers_def from_flat_def required_string_def
  parse_event_data_def migrate_schema_1_def COMMON_FIELDS_def bt_remove_def bt_retain_def sample_codec_def or_else_def
  unwrap_or_def count_up_def checked_add_u64_def Let_def

lemma sample_started:
  "fold_from sample_codec run_state_default [sample_event ''step_started'' 1 []] =
     Inr (run_state_default\<lparr>last_seq := 1, budget := budget_default\<lparr>steps_executed := 1\<rparr>\<rparr>)"
  by (simp add: event_eval on_step_started_def run_state_default_def budget_default_def)

lemma sample_finished:
  "fold_from sample_codec run_state_default [sample_event ''run_finished'' 1 []] =
     Inr (run_state_default\<lparr>last_seq := 1, finished_at := Some ''z'', terminal := Some RunFailed\<rparr>)"
  by (simp add: event_eval on_run_ended_def terminal_of_def run_state_default_def)

lemma sample_resumed:
  "fold_from sample_codec
     (run_state_default\<lparr>last_seq := 1, finished_at := Some ''z'', terminal := Some RunFailed\<rparr>) [sample_event ''run_resumed'' 2 []] =
     Inr (run_state_default\<lparr>last_seq := 2, finished_at := Some ''z''\<rparr>)"
  by (simp add: event_eval on_run_resumed_def run_state_default_def)

text \<open>C5: A journal is accepted only in the order of its sequence numbers: they are positive and strictly
  increasing, and the folded state remembers the last one. A duplicate or rewound event is refused.\<close>

theorem journal_order:
  assumes "fold_values cx events = Inr st"
  shows "sorted_wrt (<) (map event_seq events) \<and> (\<forall>event\<in>set events. 0 < event_seq event)
    \<and> last_seq st = (if events = [] then 0 else event_seq (last events))"
  using fold_from_seq [OF assms [unfolded fold_values_def]] by (simp add: run_state_default_def)

theorem journal_order_witness:
  "last_seq (run_state_default\<lparr>last_seq := 1, budget := budget_default\<lparr>steps_executed := 1\<rparr>\<rparr>)
     = event_seq (sample_event ''step_started'' 1 [])"
  using journal_order [OF sample_started [folded fold_values_def]] by simp

text \<open>C6: Once a journal has folded to a final state (succeeded, failed or canceled), the only events it
  accepts next are the restarts of the run: a re-admission, a start or a resumption.\<close>

theorem final_run_gate:
  assumes "fold_values cx (before @ event # after) = Inr st" "fold_values cx before = Inr mid" "is_final mid"
  shows "event_str event ''t'' \<in> Some ` {''run_queued'', ''run_started'', ''run_resumed''}"
proof -
  have "fold_from cx mid (event # after) = Inr st"
    using assms(1,2) by (simp add: fold_values_def journal.run_append del: fold_from.simps)
  then obtain st1 where "journal_step cx event mid = Inr st1"
    unfolding journal.run_Cons and_then_Inr_iff by blast
  then show ?thesis using assms(3) by (rule journal_step_final) (simp add: restarts_run_def)
qed

theorem final_run_gate_witness:
  "event_str (sample_event ''run_resumed'' 2 []) ''t'' \<in> Some ` {''run_queued'', ''run_started'', ''run_resumed''}"
proof -
  have "fold_values sample_codec ([sample_event ''run_finished'' 1 []] @ [sample_event ''run_resumed'' 2 []])
      = Inr (run_state_default\<lparr>last_seq := 2, finished_at := Some ''z''\<rparr>)"
    unfolding fold_values_def journal.run_append sample_finished and_then.simps by (rule sample_resumed)
  then show ?thesis by (rule final_run_gate) (rule sample_finished [folded fold_values_def], simp add: is_final_def)
qed

text \<open>C8: Within a lineage the identity of a run is fixed: however a journal continues, the package
  digest and the generator once recorded stay, the start stamp and the elapsed-budget mode never change
  after the first admission, and the accounted active time never decreases.\<close>

theorem lineage_preserved:
  assumes "fold_values cx (before @ after) = Inr st" "fold_values cx before = Inr mid"
  shows "(package_sha256 mid \<noteq> None \<longrightarrow> package_sha256 st = package_sha256 mid)
    \<and> (generator_id mid \<noteq> None \<longrightarrow> generator_id st = generator_id mid)
    \<and> (started_at (budget mid) \<noteq> None \<longrightarrow> started_at (budget st) = started_at (budget mid)
         \<and> elapsed_mode (budget st) = elapsed_mode (budget mid))
    \<and> (\<forall>ledger. elapsed (budget mid) = Some ledger \<longrightarrow>
         (\<exists>ledger'. elapsed (budget st) = Some ledger' \<and> active_nanoseconds ledger \<le> active_nanoseconds ledger'))"
proof -
  have "fold_from cx mid after = Inr st"
    using assms by (simp add: fold_values_def journal.run_append)
  then show ?thesis using lineage_fold unfolding lineage_def by blast
qed

definition sample_admission :: json where
  "sample_admission = sample_event ''run_started'' 1
     [(''schema_version'', Number (PosInt 2)), (''elapsed_budget_mode'', String ''active_execution''),
      (''package_sha256'', String ''p'')]"

definition admitted_state :: run_state where
  "admitted_state = run_state_default\<lparr>last_seq := 1, run_id := Some ''r'', package_sha256 := Some ''p'',
     execution_started := True,
     budget := budget_default\<lparr>elapsed_mode := ActiveExecution, started_at := Some ''z'',
       elapsed := Some \<lparr>active_nanoseconds = 0, active_started_at = None\<rparr>\<rparr>\<rparr>"

lemma sample_admitted: "fold_from sample_codec run_state_default [sample_admission] = Inr admitted_state"
  by (simp add: sample_admission_def admitted_state_def event_eval JOURNAL_SCHEMA_VERSION_def on_admission_def
      admission_mode_def decode_elapsed_mode_def admit_ledger_def admit_identity_def admit_inputs_def admit_start_def
      admit_labels_def run_state_default_def budget_default_def)

lemma sample_admitted_started:
  "fold_from sample_codec admitted_state [sample_event ''step_started'' 2 []] =
     Inr (admitted_state\<lparr>last_seq := 2, budget := (budget admitted_state)\<lparr>steps_executed := 1\<rparr>\<rparr>)"
  by (simp add: event_eval on_step_started_def admitted_state_def run_state_default_def budget_default_def)

theorem lineage_preserved_witness:
  "package_sha256 (admitted_state\<lparr>last_seq := 2, budget := (budget admitted_state)\<lparr>steps_executed := 1\<rparr>\<rparr>) = Some ''p''"
proof -
  have "fold_values sample_codec ([sample_admission] @ [sample_event ''step_started'' 2 []])
      = Inr (admitted_state\<lparr>last_seq := 2, budget := (budget admitted_state)\<lparr>steps_executed := 1\<rparr>\<rparr>)"
    unfolding fold_values_def journal.run_append sample_admitted and_then.simps by (rule sample_admitted_started)
  from lineage_preserved [OF this sample_admitted [folded fold_values_def]] show ?thesis
    by (simp add: admitted_state_def)
qed

text \<open>C2: In every folded state a file is never both expected to be absent and pinned to a revision, and
  the latest revision of every pinned file is one that the history holds, so resumption can check it
  against the immutable revisions.\<close>

theorem file_pins_invariant:
  assumes "fold_values cx events = Inr st"
  shows "(\<forall>path. bt_get (removed_files st) path \<noteq> None \<longrightarrow> bt_get (latest_file_pins st) path = None)
    \<and> (\<forall>path digest. bt_get (latest_file_pins st) path = Some digest \<longrightarrow>
         (\<exists>revisions. bt_get (historical_file_pins st) path = Some revisions \<and> bt_get revisions digest = Some ()))"
proof -
  have "files_inv run_state_default" by (simp add: files_inv_def run_state_default_def)
  then have "files_inv st"
    by (rule journal.run_invariant [where P = files_inv, rotated 2])
       (use assms in \<open>auto simp: fold_values_def intro: files_inv_journal_step\<close>)
  then show ?thesis unfolding files_inv_def recorded_def .
qed





definition sample_pin :: json where
  "sample_pin = sample_event ''step_finished'' 2
     [(''files'', Array [Object [(''path'', String ''f''), (''sha256'', String ''d'')]]), (''node'', String ''n''),
      (''status'', String ''needs_user'')]"

lemma sample_pinned:
  "\<exists>st. fold_from sample_codec run_state_default [sample_pin] = Inr st \<and> bt_get (latest_file_pins st) ''f'' = Some ''d''"
  by (simp add: sample_pin_def event_eval on_step_finished_def apply_step_finished_def event_pins_def decode_file_pin_def
      is_succeeded_status_def is_suspended_status_def settle_tasks_def record_history_def apply_workspace_file_pins_def
      install_interaction_def run_state_default_def)

theorem file_pins_invariant_witness:
  "\<exists>st revisions. fold_values sample_codec [sample_pin] = Inr st
     \<and> bt_get (historical_file_pins st) ''f'' = Some revisions \<and> bt_get revisions ''d'' = Some ()"
proof -
  obtain st where st: "fold_values sample_codec [sample_pin] = Inr st" "bt_get (latest_file_pins st) ''f'' = Some ''d''"
    using sample_pinned unfolding fold_values_def by blast
  then show ?thesis using file_pins_invariant [OF st(1)] by blast
qed

section \<open>Folding a prefix\<close>

lemma fold_through_all: "fold_through cx None st events = fold_from cx st events"
proof (induction events arbitrary: st)
  case (Cons e events)
  then show ?case by (cases "from_flat (cd_payload cx) e") simp_all
qed simp

lemma fold_through_filter:
  "fold_from cx st events = Inr st' \<Longrightarrow>
   fold_through cx (Some n) st events = fold_from cx st (filter (\<lambda>event. event_seq event \<le> n) events)"
proof (induction events arbitrary: st)
  case (Cons e events)
  obtain st1 where st1: "journal_step cx e st = Inr st1" "fold_from cx st1 events = Inr st'"
    using Cons.prems unfolding journal.run_Cons and_then_Inr_iff by blast
  obtain parsed where p: "from_flat (cd_payload cx) e = Inr parsed" "apply_event cx e st = Inr st1"
    using st1(1) by (rule journal_step_Inr)
  have seq: "ev_seq parsed = event_seq e" using p(1) by (rule from_flat_Inr) (simp add: event_seq_def)
  show ?case
  proof (cases "event_seq e \<le> n")
    case True
    then show ?thesis using Cons.IH [OF st1(2)] p seq by simp
  next
    case False
    have "\<forall>f\<in>set events. event_seq e < event_seq f"
      using fold_from_seq [OF Cons.prems] by simp
    then have "filter (\<lambda>event. event_seq event \<le> n) events = []" using False by (fastforce simp: filter_empty_conv)
    then show ?thesis using False p seq by simp
  qed
qed simp

text \<open>C23: Folding a valid journal up to a sequence number, as recovery and forks do, gives the state of
  exactly the events with at most that number, and without a limit the whole fold: stopping at the
  first later event drops nothing.\<close>

theorem fold_through_prefix:
  assumes "fold_values cx events = Inr st"
  shows "fold_journal_through cx (Some n) events = fold_values cx (filter (\<lambda>event. event_seq event \<le> n) events)
    \<and> fold_journal cx events = fold_values cx events"
  using fold_through_filter [OF assms [unfolded fold_values_def]]
  by (simp add: fold_journal_through_def fold_journal_def fold_values_def fold_through_all)

theorem fold_through_prefix_witness:
  "fold_journal_through sample_codec (Some 0) [sample_event ''step_started'' 1 []] = Inr run_state_default"
proof -
  have "event_seq (sample_event ''step_started'' 1 []) = 1" by (simp add: event_seq_def sample_event_def)
  then show ?thesis
    using fold_through_prefix [OF sample_started [folded fold_values_def], of 0] by (simp add: fold_values_def)
qed

section \<open>Responses\<close>




end
