(* ===== verification/RunAccounts.thy ===== *)
theory RunAccounts
  imports RunInvariants
begin

text \<open>
  The accounts of a run: its budget counters, the generations of its nodes and the records of its external
  operations are determined by the events of the journal. Each is stated as a sum, a count or a last
  effect over the list of events, independently of the fold.
\<close>

section \<open>The handlers that keep accounts\<close>

abbreviation same_counters :: "run_state \<Rightarrow> run_state \<Rightarrow> bool" where
  "same_counters st' st \<equiv> steps_executed (budget st') = steps_executed (budget st)
     \<and> budget_charged (budget st') = budget_charged (budget st) \<and> llm_calls (budget st') = llm_calls (budget st)
     \<and> tokens_input (budget st') = tokens_input (budget st) \<and> tokens_output (budget st') = tokens_output (budget st)
     \<and> cost_microusd (budget st') = cost_microusd (budget st)"

lemma accounting_cases:
  assumes "(kind, h) \<in> set handlers"
  obtains (step) "kind = ''step_started''" "h = on_step_started"
    | (charge) "kind = ''budget_charged''" "h = on_budget_charged"
    | (llm) "kind = ''llm_call''" "h = on_llm_call"
    | (op_started) "kind = ''operation_started''" "h = on_operation_started"
    | (op_finished) "kind = ''operation_finished''" "h = on_operation_finished"
    | (consumed) "kind = ''mcp_continuation_consumed''" "h = on_mcp_continuation_consumed"
    | (finished) "kind = ''step_finished''" "h = on_step_finished"
    | (plain) "kind \<notin> {''step_started'', ''budget_charged'', ''llm_call'', ''operation_started'',
        ''operation_finished'', ''mcp_continuation_consumed'', ''step_finished''}"
      "h \<in> {on_agent_checkpoint, on_resource, on_cancel_requested, on_mcp_input_pending,
        on_mcp_continuation_resumed, on_run_forked} \<or> h \<in> {on_elapsed_accounted, on_repair_attempt_started, on_regenerate_attempt_started}
        \<or> h \<in> {on_admission, on_run_resumed, on_run_ended, on_task_joined, on_state_patched, on_hook_failed,
           on_hook_skipped, on_agent_file_changes, on_step_skipped, on_request, on_response}"
  using assms unfolding handlers_def set_simps insert_iff prod.inject empty_iff by (elim disjE conjE) (simp_all add: that)

lemma on_admission_counters:
  assumes "on_admission cx kind event st = Inr st'"
  shows "same_counters st' st"
  using assms by (rule on_admission_Inr) (erule admit_ledger_Inr; drule admit_identity_Inr; simp)

lemma step_finished_counters:
  assumes "apply_step_finished cx event st = Inr st'"
  shows "same_counters st' st"
  using assms
proof (cases rule: apply_step_finished_cases)
  case suspended
  then show ?thesis using install_interaction_frame by fastforce
qed (auto dest!: record_success_frame record_failure_frame record_node_execution_Inr(1))

lemma on_request_counters: "on_request cx kind event st = Inr st' \<Longrightarrow> same_counters st' st"
  by (erule on_request_Inr) (auto dest!: step_finished_counters install_interaction_frame)

lemma on_step_skipped_counters: "on_step_skipped cx kind event st = Inr st' \<Longrightarrow> same_counters st' st"
  by (erule on_step_skipped_Inr) simp_all

lemma suspended_executions:
  assumes "apply_step_finished cx event st = Inr st'" "event_str event ''status'' = Some ''needs_confirm''"
  shows "same_executions st' st"
  using assms(1)
proof (cases rule: apply_step_finished_cases)
  case suspended
  then show ?thesis using install_interaction_frame by fastforce
qed (use assms(2) in \<open>simp_all add: is_suspended_status_def\<close>)

lemma on_request_executions:
  assumes "on_request cx kind event st = Inr st'"
  shows "same_executions st' st"
proof -
  obtain st1 where st1: "(if kind = ''confirm_request'' \<and> json_get event ''files'' \<noteq> None \<and> json_get event ''node'' \<noteq> None
               then apply_step_finished cx (json_insert ''status'' (String ''needs_confirm'') event) st
               else Inr st) = Inr st1" "install_interaction cx event (kind = ''confirm_request'') st1 = Inr st'"
    using assms unfolding on_request_def and_then_Inr_iff by blast
  have "same_executions st1 st"
  proof (cases "kind = ''confirm_request'' \<and> json_get event ''files'' \<noteq> None \<and> json_get event ''node'' \<noteq> None")
    case True
    then have "json_get event ''files'' \<noteq> None" by (elim conjE)
    then obtain m where "event = Object m" by (cases event) simp_all
    then have "event_str (json_insert ''status'' (String ''needs_confirm'') event) ''status'' = Some ''needs_confirm''" by simp
    then show ?thesis using st1(1) unfolding if_P [OF True] by (rule suspended_executions [rotated])
  next
    case False
    then show ?thesis using st1(1) unfolding if_not_P [OF False] by simp
  qed
  then show ?thesis using install_interaction_frame [OF st1(2)] by simp
qed

lemmas plain_frames = on_admission_frame on_run_resumed_frame on_run_ended_frame
  on_task_joined_frame on_state_patched_frame on_hook_failed_frame on_hook_skipped_frame on_agent_file_changes_frame
  on_step_skipped_frame on_request_frame on_response_frame on_admission_counters on_request_counters
  on_step_skipped_counters on_request_executions

lemma plain_accounts:
  assumes "h \<in> {on_agent_checkpoint, on_resource, on_cancel_requested, on_mcp_input_pending,
        on_mcp_continuation_resumed, on_run_forked} \<or> h \<in> {on_elapsed_accounted, on_repair_attempt_started, on_regenerate_attempt_started}
        \<or> h \<in> {on_admission, on_run_resumed, on_run_ended, on_task_joined, on_state_patched, on_hook_failed,
           on_hook_skipped, on_agent_file_changes, on_step_skipped, on_request, on_response}"
    "h cx kind event st = Inr st'"
  shows "same_counters st' st \<and> same_operations st' st \<and> same_executions st' st"
  using assms(1)
proof (elim disjE)
  assume idle: "h \<in> {on_agent_checkpoint, on_resource, on_cancel_requested, on_mcp_input_pending,
        on_mcp_continuation_resumed, on_run_forked}"
  then show ?thesis using idle_frames [OF idle assms(2)] by simp
next
  assume "h \<in> {on_elapsed_accounted, on_repair_attempt_started, on_regenerate_attempt_started}"
  then show ?thesis using assms(2)
    by (auto simp: on_elapsed_accounted_def on_repair_attempt_started_def on_regenerate_attempt_started_def result_simps)
next
  assume "h \<in> {on_admission, on_run_resumed, on_run_ended, on_task_joined, on_state_patched, on_hook_failed,
           on_hook_skipped, on_agent_file_changes, on_step_skipped, on_request, on_response}"
  then show ?thesis using assms(2) unfolding insert_iff empty_iff by (elim disjE) (auto dest: plain_frames)
qed

section \<open>Amounts of an event\<close>

definition ok_amount :: "'e + nat \<Rightarrow> nat" where
  "ok_amount r = (case r of Inr n \<Rightarrow> n | Inl _ \<Rightarrow> 0)"


definition counted :: "string \<Rightarrow> (json \<Rightarrow> nat) \<Rightarrow> json \<Rightarrow> nat" where
  "counted kind amount event = (if event_str event ''t'' = Some kind then amount event else 0)"

definition journal_total :: "string \<Rightarrow> (json \<Rightarrow> nat) \<Rightarrow> json list \<Rightarrow> nat" where
  "journal_total kind amount events = sum_list (map (counted kind amount) events)"

lemma ok_amount_Inr [simp]: "ok_amount (Inr n) = n"
  by (simp add: ok_amount_def)




lemma accept_seq_accounts:
  "accept_seq event st = Inr st' \<Longrightarrow> same_counters st' st \<and> same_operations st' st \<and> same_executions st' st"
  by (erule accept_seq_Inr) simp_all

lemma unhandled_kind: "map_of m kind = None \<Longrightarrow> map_of m k \<noteq> None \<Longrightarrow> kind \<noteq> k"
  by auto

lemma accounted:
  "map_of handlers ''step_started'' \<noteq> None" "map_of handlers ''budget_charged'' \<noteq> None"
  "map_of handlers ''llm_call'' \<noteq> None" "map_of handlers ''operation_started'' \<noteq> None"
  "map_of handlers ''operation_finished'' \<noteq> None" "map_of handlers ''mcp_continuation_consumed'' \<noteq> None"
  "map_of handlers ''step_finished'' \<noteq> None"
  by (simp_all add: handlers_def)



section \<open>External operations and node generations\<close>

context event_fold
begin

lemma run_refines:
  assumes "\<And>e s s'. step e s = Inr s' \<Longrightarrow> abstraction s' = spec_step e (abstraction s)" "run s es = Inr s'"
  shows "abstraction s' = fold spec_step es (abstraction s)"
  using assms(2)
proof (induction es arbitrary: s)
  case (Cons e es)
  then obtain s1 where "step e s = Inr s1" "run s1 es = Inr s'" by (auto simp: run_Cons and_then_Inr_iff)
  then show ?case using Cons.IH [of s1] assms(1) by simp
qed (simp add: run_Nil)

end

definition operation_effect :: "json \<Rightarrow> (string \<times> operation_status) option" where
  "operation_effect event =
     (case event_str event ''t'' of
        None \<Rightarrow> None
      | Some kind \<Rightarrow>
          if kind = ''operation_started'' then map_option (\<lambda>nid. (nid, Started)) (event_str event ''operation_id'')
          else if kind = ''operation_finished''
          then map_option (\<lambda>nid. (nid, fst (finished_outcome event))) (event_str event ''operation_id'')
          else if kind = ''mcp_continuation_consumed''
          then map_option (\<lambda>key. (''mcp:'' @ key, OpSucceeded)) (event_str event ''pending_key'')
          else None)"

definition set_status :: "json \<Rightarrow> (string \<rightharpoonup> operation_status) \<Rightarrow> string \<rightharpoonup> operation_status" where
  "set_status event m = (case operation_effect event of None \<Rightarrow> m | Some (nid, status) \<Rightarrow> m(nid \<mapsto> status))"

definition statuses :: "run_state \<Rightarrow> string \<rightharpoonup> operation_status" where
  "statuses st = (\<lambda>nid. map_option op_status (bt_get (operation_records st) nid))"

definition generation :: "(string, nat) btree \<Rightarrow> string \<Rightarrow> nat" where
  "generation m k = unwrap_or (bt_get m k) 0"

lemma generation_insert: "generation (bt_insert k n m) k' = (if k' = k then n else generation m k')"
  by (simp add: generation_def unwrap_or_def)

lemma on_operation_started_accounts:
  assumes "on_operation_started cx kind event st = Inr st'"
  shows "statuses st' = (case event_str event ''operation_id'' of None \<Rightarrow> statuses st | Some nid \<Rightarrow> (statuses st)(nid \<mapsto> Started))
    \<and> generation (operation_attempts st') nid
        = generation (operation_attempts st) nid + (if event_str event ''operation_id'' = Some nid then 1 else 0)
    \<and> (bt_wf (operation_records st) \<longrightarrow> bt_wf (operation_records st'))"
proof (cases "event_str event ''operation_id''")
  case (Some k)
  show ?thesis using assms unfolding on_operation_started_def Some option.case Let_def and_then_Inr_iff ok_or_Inr_iff
      checked_add_u32_Some generation_def [symmetric] sum.inject
    by (elim exE conjE) (auto simp: statuses_def generation_insert)
qed (use assms in \<open>simp add: on_operation_started_def\<close>)

lemma on_operation_finished_accounts:
  assumes "on_operation_finished cx kind event st = Inr st'"
  shows "statuses st' = (case event_str event ''operation_id'' of None \<Rightarrow> statuses st
        | Some nid \<Rightarrow> (statuses st)(nid \<mapsto> fst (finished_outcome event)))
    \<and> (bt_wf (operation_records st) \<longrightarrow> bt_wf (operation_records st'))"
proof (cases "event_str event ''operation_id''")
  case (Some k)
  show ?thesis
    using assms unfolding on_operation_finished_def Some option.case Let_def
    by (cases "finished_outcome event") (auto simp: statuses_def)
qed (use assms in \<open>simp add: on_operation_finished_def\<close>)

lemma on_mcp_continuation_consumed_accounts:
  assumes "on_mcp_continuation_consumed cx kind event st = Inr st'"
  shows "statuses st' = (case event_str event ''pending_key'' of None \<Rightarrow> statuses st
        | Some key \<Rightarrow> (statuses st)(''mcp:'' @ key \<mapsto> OpSucceeded))
    \<and> (bt_wf (operation_records st) \<longrightarrow> bt_wf (operation_records st'))"
  using assms by (auto simp: on_mcp_continuation_consumed_def statuses_def split: option.splits)

definition settled_node :: "json \<Rightarrow> string option" where
  "settled_node event =
     (case event_str event ''status'' of
        Some status \<Rightarrow> if is_suspended_status status then None else event_str event ''node''
      | None \<Rightarrow> None)"

lemma step_finished_executions:
  assumes "apply_step_finished cx event st = Inr st'"
  shows "generation (node_executions st') path
    = generation (node_executions st) path + (if settled_node event = Some path then 1 else 0)"
  using assms
proof (cases rule: apply_step_finished_cases)
  case suspended
  then have "same_executions st' st" using install_interaction_frame by fastforce
  then show ?thesis using suspended(2,4) by (simp add: settled_node_def)
next
  case (succeeded p status pins failed st1)
  then have "settled_node event = Some p" by (simp add: settled_node_def)
  moreover have "same_executions st1 st" using record_success_frame [OF succeeded(6)] by simp
  ultimately show ?thesis using record_node_execution_Inr(1) [OF succeeded(7)]
    by (simp add: generation_def [symmetric] generation_insert)
next
  case (unsuccessful p status pins failed st1)
  then have "settled_node event = Some p" by (simp add: settled_node_def)
  moreover have "same_executions st1 st" using record_failure_frame [OF unsuccessful(5)] by simp
  ultimately show ?thesis using record_node_execution_Inr(1) [OF unsuccessful(6)]
    by (simp add: generation_def [symmetric] generation_insert)
qed

lemma dispatch_accounts:
  assumes "dispatch cx kind event st = Inr st'"
  shows "statuses st' = (if kind = ''operation_started'' then
           case event_str event ''operation_id'' of None \<Rightarrow> statuses st | Some nid \<Rightarrow> (statuses st)(nid \<mapsto> Started)
         else if kind = ''operation_finished'' then
           case event_str event ''operation_id'' of None \<Rightarrow> statuses st
             | Some nid \<Rightarrow> (statuses st)(nid \<mapsto> fst (finished_outcome event))
         else if kind = ''mcp_continuation_consumed'' then
           case event_str event ''pending_key'' of None \<Rightarrow> statuses st
             | Some key \<Rightarrow> (statuses st)(''mcp:'' @ key \<mapsto> OpSucceeded)
         else statuses st)
    \<and> generation (operation_attempts st') nid = generation (operation_attempts st) nid
        + (if kind = ''operation_started'' then if event_str event ''operation_id'' = Some nid then 1 else 0 else 0)
    \<and> generation (node_executions st') path = generation (node_executions st) path
        + (if kind = ''step_finished'' then if settled_node event = Some path then 1 else 0 else 0)
    \<and> (bt_wf (operation_records st) \<longrightarrow> bt_wf (operation_records st'))"
  using assms
proof (cases rule: dispatch_cases)
  case (handled h)
  from handled(1) show ?thesis
  proof (cases rule: accounting_cases)
    case op_started
    note h = handled(2) [unfolded op_started(2)]
    show ?thesis using on_operation_started_accounts [OF h, of nid] on_operation_started_frame [OF h]
      unfolding op_started(1) by simp
  next
    case op_finished
    note h = handled(2) [unfolded op_finished(2)]
    show ?thesis using on_operation_finished_accounts [OF h] on_operation_finished_frame [OF h]
      unfolding op_finished(1) by simp
  next
    case consumed
    note h = handled(2) [unfolded consumed(2)]
    show ?thesis using on_mcp_continuation_consumed_accounts [OF h] on_mcp_continuation_consumed_frame [OF h]
      unfolding consumed(1) by simp
  next
    case finished
    note h = handled(2) [unfolded finished(2) on_step_finished_def]
    show ?thesis using step_finished_executions [OF h, of path] apply_step_finished_frame [OF h]
      unfolding finished(1) by (simp add: statuses_def)
  next
    case step
    show ?thesis using budget_frames [of on_step_started, OF _ handled(2) [unfolded step(2)]]
      unfolding step(1) by (simp add: statuses_def)
  next
    case charge
    show ?thesis using budget_frames [of on_budget_charged, OF _ handled(2) [unfolded charge(2)]]
      unfolding charge(1) by (simp add: statuses_def)
  next
    case llm
    show ?thesis using budget_frames [of on_llm_call, OF _ handled(2) [unfolded llm(2)]]
      unfolding llm(1) by (simp add: statuses_def)
  next
    case plain
    note d = plain(1) [unfolded insert_iff de_Morgan_disj, THEN conjunct2, THEN conjunct2, THEN conjunct2]
    note n = d [THEN conjunct1] d [THEN conjunct2, THEN conjunct1] d [THEN conjunct2, THEN conjunct2, THEN conjunct1]
      d [THEN conjunct2, THEN conjunct2, THEN conjunct2, THEN conjunct1]
    have "same_operations st' st" "same_executions st' st" using plain_accounts [OF plain(2) handled(2)] by iprover+
    note same = this(1) [THEN conjunct1] this(1) [THEN conjunct2] this(2)
    show ?thesis unfolding n [THEN if_not_P] statuses_def same add_0_right by iprover
  qed
next
  case ignored
  note n = accounted [THEN unhandled_kind [OF ignored(1)]]
  show ?thesis unfolding ignored(2) n [THEN if_not_P] add_0_right by iprover
qed

lemma journal_step_accounts:
  assumes "journal_step cx event st = Inr st'"
  shows "statuses st' = set_status event (statuses st)
    \<and> generation (operation_attempts st') nid = generation (operation_attempts st) nid
        + counted ''operation_started'' (\<lambda>event. if event_str event ''operation_id'' = Some nid then 1 else 0) event
    \<and> generation (node_executions st') path = generation (node_executions st) path
        + counted ''step_finished'' (\<lambda>event. if settled_node event = Some path then 1 else 0) event
    \<and> (bt_wf (operation_records st) \<longrightarrow> bt_wf (operation_records st'))"
  using assms
proof (elim journal_step_Inr apply_event_Inr)
  fix kind st1
  assume a: "accept_seq event st = Inr st1" "event_str event ''t'' = Some kind"
    "dispatch cx kind event (note_search_cost kind event st1) = Inr st'"
  have s: "same_operations (note_search_cost kind event st1) st" "same_executions (note_search_cost kind event st1) st"
    using accept_seq_accounts [OF a(1)] by simp_all
  note s = s(1) [THEN conjunct1] s(1) [THEN conjunct2] s(2)
  define started finished consumed settled where
    k: "started \<longleftrightarrow> kind = ''operation_started''" "finished \<longleftrightarrow> kind = ''operation_finished''"
       "consumed \<longleftrightarrow> kind = ''mcp_continuation_consumed''" "settled \<longleftrightarrow> kind = ''step_finished''"
  note d = dispatch_accounts [OF a(3), of nid path, unfolded s statuses_def [of "note_search_cost kind event st1"],
      folded k statuses_def]
  show ?thesis
    using d unfolding set_status_def operation_effect_def counted_def a(2) option.inject option.case k [symmetric]
    by (simp split: option.split)
qed

section \<open>Bounds of the counters\<close>





section \<open>Properties\<close>













text \<open>C26: The execution generation of a node counts the finished steps that the journal reports for it:
  every settled report counts once, and a report that suspends the step does not count.\<close>

theorem node_generations:
  assumes "fold_values cx events = Inr st"
  shows "unwrap_or (bt_get (node_executions st) path) 0
    = journal_total ''step_finished'' (\<lambda>event. if settled_node event = Some path then 1 else 0) events"
  unfolding generation_def [symmetric]
  using journal.run_sum [OF _ assms [unfolded fold_values_def], of "\<lambda>st. generation (node_executions st) path"]
    journal_step_accounts
  by (simp add: journal_total_def generation_def unwrap_or_def run_state_default_def)

theorem node_generations_witness:
  "\<exists>st. fold_values sample_codec [sample_pin] = Inr st \<and> unwrap_or (bt_get (node_executions st) ''n'') 0 = 0"
proof -
  obtain st where st: "fold_values sample_codec [sample_pin] = Inr st"
    using sample_pinned unfolding fold_values_def by blast
  show ?thesis using node_generations [OF st, of "''n''"] st
    by (simp add: journal_total_def counted_def settled_node_def is_suspended_status_def sample_pin_def sample_event_def)
qed

end
