(* ===== verification/F64Order.thy ===== *)
theory F64Order
  imports F64
begin

text \<open>
  Order properties of binary64 rounding: rounding is monotone with respect to every value that binary64
  holds, so a bound by such a value survives an operation whatever its rounding error.
\<close>

lemma round_mag_pos:
  assumes "0 < q"
  shows "round_mag q = (let e = max (ilog2 q - 52) (- 1074);
      r = of_int (round_half_even (q / 2 powi e)) * 2 powi e in if r \<ge> 2 ^ 1024 then None else Some r)"
  using assms by (simp add: round_mag_def)

lemma powi_scale: "e \<le> k \<Longrightarrow> (2::rat) powi k / 2 powi e = of_int (2 ^ nat (k - e))"
  by (simp add: power_int_diff [symmetric] powi_nonneg_of_int)

lemma significand_less: "m < 2 ^ 53 \<Longrightarrow> of_nat m * (2::rat) powi k < 2 ^ 53 * 2 powi k"
proof -
  assume "m < 2 ^ 53"
  then have "of_nat m < (of_nat (2 ^ 53) :: rat)" by (simp only: of_nat_less_iff)
  then show ?thesis by (simp only: of_nat_power of_nat_numeral) simp
qed

lemma of_int_pow_le: "2 ^ n \<le> i \<Longrightarrow> (2::rat) ^ n \<le> of_int i"
proof -
  assume "2 ^ n \<le> i"
  then have "(of_int (2 ^ n) :: rat) \<le> of_int i" by (simp only: of_int_le_iff)
  then show ?thesis by simp
qed

lemma round_mag_le:
  assumes "representable r" "0 \<le> q" "q \<le> r"
  obtains s where "round_mag q = Some s" "0 \<le> s" "s \<le> r"
proof (cases "q = 0")
  case True
  then show ?thesis using that assms by (simp add: round_mag_def)
next
  case False
  then have q: "0 < q" using assms by simp
  obtain m :: nat and k :: int where r: "r = of_nat m * 2 powi k" "m < 2 ^ 53" "- 1074 \<le> k"
    using assms(1) unfolding representable_def by blast
  define e where "e = max (ilog2 q - 52) (- 1074)"
  have "e \<le> k"
  proof (rule ccontr)
    assume "\<not> e \<le> k"
    then have k: "k < e" "e = ilog2 q - 52" using r(3) by (auto simp: e_def max_def split: if_splits)
    have "r < 2 ^ 53 * 2 powi k" using r(1,2) by (simp add: significand_less)
    also have "\<dots> = 2 powi (53 + k)" by (simp add: power_int_add)
    also have "\<dots> \<le> 2 powi ilog2 q" using k by (intro powi_mono2) simp
    also have "\<dots> \<le> q" by (rule ilog2_bounds [OF q])
    finally show False using assms(3) by simp
  qed
  then have i: "r / 2 powi e = of_int (of_nat m * 2 ^ nat (k - e))"
    using powi_scale [of e k] by (simp add: r(1) flip: times_divide_eq_right)
  have "q / 2 powi e \<le> of_int (of_nat m * 2 ^ nat (k - e))"
    unfolding i [symmetric] using assms(3) by (simp add: divide_right_mono)
  then have "round_half_even (q / 2 powi e) \<le> of_nat m * 2 ^ nat (k - e)" by (rule round_half_even_upper)
  then have "of_int (round_half_even (q / 2 powi e)) \<le> r / 2 powi e" unfolding i of_int_le_iff .
  then have le: "of_int (round_half_even (q / 2 powi e)) * 2 powi e \<le> r" by (simp add: pos_le_divide_eq)
  have "0 \<le> round_half_even (q / 2 powi e)" by (rule round_half_even_lower) (use q in simp)
  then have "0 \<le> of_int (round_half_even (q / 2 powi e)) * (2::rat) powi e" by simp
  then show ?thesis
    using that le representable_less [OF assms(1)] by (simp add: round_mag_pos [OF q] e_def [symmetric] Let_def)
qed

lemma round_mag_ge:
  assumes "representable r" "r \<le> q" "0 \<le> q" "round_mag q = Some s"
  shows "r \<le> s"
proof (cases "q = 0")
  case True
  then show ?thesis using assms by (simp add: round_mag_def)
next
  case False
  then have q: "0 < q" using assms by simp
  obtain m :: nat and k :: int where r: "r = of_nat m * 2 powi k" "m < 2 ^ 53" "- 1074 \<le> k"
    using assms(1) unfolding representable_def by blast
  define e where "e = max (ilog2 q - 52) (- 1074)"
  have s: "s = of_int (round_half_even (q / 2 powi e)) * 2 powi e"
    using assms(4) by (simp add: round_mag_pos [OF q] e_def [symmetric] Let_def split: if_splits)
  show ?thesis
  proof (cases "e \<le> k")
    case True
    then have i: "r / 2 powi e = of_int (of_nat m * 2 ^ nat (k - e))"
      using powi_scale [of e k] by (simp add: r(1) flip: times_divide_eq_right)
    have "of_int (of_nat m * 2 ^ nat (k - e)) \<le> q / 2 powi e"
      unfolding i [symmetric] using assms(2) by (simp add: divide_right_mono)
    then have "of_nat m * 2 ^ nat (k - e) \<le> round_half_even (q / 2 powi e)" by (rule round_half_even_lower)
    then have "r / 2 powi e \<le> of_int (round_half_even (q / 2 powi e))" unfolding i of_int_le_iff .
    then show ?thesis unfolding s by (simp add: pos_divide_le_eq)
  next
    case False
    then have k: "k < e" "e = ilog2 q - 52" using r(3) by (auto simp: e_def max_def split: if_splits)
    have "of_int (2 ^ 52) = (2::rat) powi (ilog2 q) / 2 powi e"
      using powi_scale [of e "ilog2 q"] k(2) by simp
    also have "\<dots> \<le> q / 2 powi e" using ilog2_bounds(1) [OF q] by (simp add: divide_right_mono)
    finally have "2 ^ 52 \<le> round_half_even (q / 2 powi e)" by (rule round_half_even_lower)
    then have "2 ^ 52 * 2 powi e \<le> s" unfolding s by (intro mult_right_mono of_int_pow_le) simp_all
    moreover have "r < 2 ^ 53 * 2 powi k" using r(1,2) by (simp add: significand_less)
    moreover have "2 ^ 53 * (2::rat) powi k = 2 powi (53 + k)" by (simp add: power_int_add)
    moreover have "2 ^ 52 * (2::rat) powi e = 2 powi (52 + e)" by (simp add: power_int_add)
    moreover have "(2::rat) powi (53 + k) \<le> 2 powi (52 + e)" using k by (intro powi_mono2) simp
    ultimately show ?thesis by linarith
  qed
qed

end
