(* ===== verification/RateLimit.thy ===== *)
theory RateLimit
  imports F64Order "HOL-Library.AList" "HOL-Library.Word"
begin

unbundle bit_operations_syntax

text \<open>
  The HTTP rate limiter of the server, \<open>server/rate_limit.rs\<close>: the policy resolved from the environment
  and the token buckets that admit requests. Tokens are binary64 numbers and are rounded as the code rounds
  them. An instant is a number of nanoseconds on the monotonic clock, so \<open>saturating_duration_since\<close> is
  subtraction of naturals. The iteration order of the hash map of buckets, the digest and the headers of a
  request are parameters. Logging is not modelled.
\<close>

section \<open>Durations\<close>

abbreviation NANOS_PER_SEC :: nat where "NANOS_PER_SEC \<equiv> 1000000000"

definition f64_of_nat :: "nat \<Rightarrow> f64" where
  "f64_of_nat n = f64_round False (of_nat n)"

definition as_secs_f64 :: "nat \<Rightarrow> f64" where
  "as_secs_f64 d = f64_add (f64_of_nat (d div NANOS_PER_SEC))
     (f64_div (f64_of_nat (d mod NANOS_PER_SEC)) (f64_of_nat NANOS_PER_SEC))"

fun duration_from_secs_f64 :: "f64 \<Rightarrow> nat option" where
  \<comment> \<open>rounds to the nearest nanosecond; \<open>None\<close> is the panic on a negative or too large number\<close>
  "duration_from_secs_f64 (Finite s q) =
     (if s \<and> q \<noteq> 0 then None
      else let d = nat (round_half_even (q * of_nat NANOS_PER_SEC))
           in if d div NANOS_PER_SEC \<le> U64_MAX then Some d else None)"
| "duration_from_secs_f64 _ = None"

section \<open>The policy\<close>

datatype rate_limit_overflow = FoldAnonymous | RejectNew

record rate_limit_policy =
  rps :: nat
  burst :: nat
  trusted_identity_header :: "string option"
  max_identities :: nat
  overflow :: rate_limit_overflow

datatype policy_error =
    NotPositive string string
  | InvalidIdentityHeader string
  | InvalidMaxIdentities string
  | InvalidOverflow string
  | CompanionWithoutRps string

definition DEFAULT_RATE_LIMIT_MAX_IDENTITIES :: nat where "DEFAULT_RATE_LIMIT_MAX_IDENTITIES = 4096"

definition MIN_RATE_LIMIT_MAX_IDENTITIES :: nat where "MIN_RATE_LIMIT_MAX_IDENTITIES = 1"

definition MAX_RATE_LIMIT_MAX_IDENTITIES :: nat where "MAX_RATE_LIMIT_MAX_IDENTITIES = 65536"

definition parse_positive :: "string \<Rightarrow> string \<Rightarrow> policy_error + nat" where
  "parse_positive name v =
     (case parse_unsigned U32_MAX v of
        Some parsed \<Rightarrow> if 1 \<le> parsed then Inr parsed else Inl (NotPositive name v)
      | None \<Rightarrow> Inl (NotPositive name v))"

definition optional_positive :: "(string \<Rightarrow> string option) \<Rightarrow> string \<Rightarrow> policy_error + nat option" where
  "optional_positive env name =
     (case env name of
        Some v \<Rightarrow> and_then (parse_positive name v) (\<lambda>n. Inr (Some n))
      | None \<Rightarrow> Inr None)"

definition resolve_identity_header ::
    "(string \<Rightarrow> bool) \<Rightarrow> (string \<Rightarrow> string option) \<Rightarrow> policy_error + string option" where
  \<comment> \<open>\<open>header_name_ok\<close> is \<open>HeaderName::from_bytes(..).is_ok()\<close>\<close>
  "resolve_identity_header header_name_ok env =
     (case env ''RATE_LIMIT_IDENTITY_HEADER'' of
        None \<Rightarrow> Inr None
      | Some v \<Rightarrow>
          (let name = to_ascii_lowercase (trim v)
           in if name = ''authorization'' \<or> \<not> header_name_ok name then Inl (InvalidIdentityHeader v)
              else Inr (Some name)))"

definition resolve_max_identities :: "(string \<Rightarrow> string option) \<Rightarrow> policy_error + nat" where
  "resolve_max_identities env =
     (case env ''RATE_LIMIT_MAX_IDENTITIES'' of
        None \<Rightarrow> Inr DEFAULT_RATE_LIMIT_MAX_IDENTITIES
      | Some v \<Rightarrow>
          (case parse_unsigned U64_MAX v of
             Some parsed \<Rightarrow>
               if MIN_RATE_LIMIT_MAX_IDENTITIES \<le> parsed \<and> parsed \<le> MAX_RATE_LIMIT_MAX_IDENTITIES then Inr parsed
               else Inl (InvalidMaxIdentities v)
           | None \<Rightarrow> Inl (InvalidMaxIdentities v)))"

definition resolve_overflow :: "(string \<Rightarrow> string option) \<Rightarrow> policy_error + rate_limit_overflow" where
  "resolve_overflow env =
     (case env ''RATE_LIMIT_OVERFLOW'' of
        None \<Rightarrow> Inr FoldAnonymous
      | Some v \<Rightarrow>
          (let choice = to_ascii_lowercase v
           in if choice = ''fold'' then Inr FoldAnonymous
              else if choice = ''reject'' then Inr RejectNew
              else Inl (InvalidOverflow v)))"

definition COMPANION_SETTINGS :: "string list" where
  "COMPANION_SETTINGS =
     [''RATE_LIMIT_BURST'', ''RATE_LIMIT_IDENTITY_HEADER'', ''RATE_LIMIT_MAX_IDENTITIES'', ''RATE_LIMIT_OVERFLOW'']"

definition resolve_rate_limit_policy ::
    "(string \<Rightarrow> bool) \<Rightarrow> (string \<Rightarrow> string option) \<Rightarrow> policy_error + rate_limit_policy option" where
  "resolve_rate_limit_policy header_name_ok env =
     and_then (optional_positive env ''RATE_LIMIT_RPS'') (\<lambda>rate.
     and_then (optional_positive env ''RATE_LIMIT_BURST'') (\<lambda>burst_setting.
     and_then (resolve_identity_header header_name_ok env) (\<lambda>header.
     and_then (resolve_max_identities env) (\<lambda>identities.
     and_then (resolve_overflow env) (\<lambda>choice.
     case rate of
       None \<Rightarrow>
         and_then (for_each (\<lambda>name. ensure (env name = None) (CompanionWithoutRps name)) COMPANION_SETTINGS) (\<lambda>_.
         Inr None)
     | Some rate \<Rightarrow>
         Inr (Some \<lparr>rps = rate, burst = (case burst_setting of Some n \<Rightarrow> n | None \<Rightarrow> rate),
                    trusted_identity_header = header, max_identities = identities, overflow = choice\<rparr>))))))"

section \<open>Buckets\<close>

type_synonym digest = "8 word list"

record token_bucket =
  tokens_left :: f64
  last_refill :: nat

type_synonym buckets = "(digest option \<times> token_bucket) list"

record rate_limiter =
  limiter_policy :: rate_limit_policy
  expected_digest :: "digest option"
  limiter_buckets :: buckets

definition with_expected_digest :: "rate_limit_policy \<Rightarrow> digest option \<Rightarrow> rate_limiter" where
  "with_expected_digest policy expected =
     \<lparr>limiter_policy = policy, expected_digest = expected, limiter_buckets = []\<rparr>"

record http_request =
  uri_path :: string
  header_str :: "string \<Rightarrow> string option"

definition constant_time_eq :: "digest \<Rightarrow> digest \<Rightarrow> bool" where
  "constant_time_eq left right = (foldl (\<lambda>diff (a, b). diff OR (a XOR b)) 0 (zip left right) = 0)"

definition rate_key :: "(string \<Rightarrow> digest) \<Rightarrow> rate_limiter \<Rightarrow> http_request \<Rightarrow> digest option" where
  "rate_key sha256_bytes limiter request =
     (case Option.bind (trusted_identity_header (limiter_policy limiter)) (\<lambda>header_name.
             Option.bind (map_option trim (header_str request header_name)) (\<lambda>v. if v = [] then None else Some v)) of
        Some v \<Rightarrow> Some (sha256_bytes v)
      | None \<Rightarrow>
          (let presented = map_option sha256_bytes
                 (Option.bind (header_str request ''authorization'') (strip_prefix ''Bearer ''))
           in case (presented, expected_digest limiter) of
                (Some supplied, Some expected) \<Rightarrow> if constant_time_eq supplied expected then Some expected else None
              | _ \<Rightarrow> None))"

datatype acquire = Granted | Denied nat | Panicked

definition deny :: "f64 \<Rightarrow> acquire" where
  "deny secs = (case duration_from_secs_f64 secs of Some d \<Rightarrow> Denied d | None \<Rightarrow> Panicked)"

definition compare_tokens :: "token_bucket \<Rightarrow> token_bucket \<Rightarrow> ordering" where
  "compare_tokens a b = (case f64_partial_cmp (tokens_left a) (tokens_left b) of Some ord \<Rightarrow> ord | None \<Rightarrow> Equal)"

definition fullest :: "buckets \<Rightarrow> digest option option" where
  \<comment> \<open>\<open>max_by\<close> over the entries in iteration order: the last of the largest\<close>
  "fullest entries =
     (case entries of
        [] \<Rightarrow> None
      | e # es \<Rightarrow> Some (fst (foldl (\<lambda>best e. if compare_tokens (snd best) (snd e) = Greater then best else e) e es)))"

definition refill :: "rate_limit_policy \<Rightarrow> nat \<Rightarrow> token_bucket \<Rightarrow> token_bucket" where
  "refill policy now bucket =
     (let elapsed_time = now - last_refill bucket
      in if 0 < elapsed_time then
           \<lparr>tokens_left = f64_min (f64_add (tokens_left bucket) (f64_mul (as_secs_f64 elapsed_time) (f64_of_nat (rps policy))))
              (f64_of_nat (burst policy)),
            last_refill = now\<rparr>
         else bucket)"

definition take_token :: "rate_limit_policy \<Rightarrow> token_bucket \<Rightarrow> token_bucket \<times> acquire" where
  "take_token policy bucket =
     (if f64_ge (tokens_left bucket) f64_one then
        (bucket\<lparr>tokens_left := f64_sub (tokens_left bucket) f64_one\<rparr>, Granted)
      else (bucket, deny (f64_div (f64_sub f64_one (tokens_left bucket)) (f64_of_nat (rps policy)))))"

definition take_from :: "rate_limit_policy \<Rightarrow> digest option \<Rightarrow> nat \<Rightarrow> buckets \<Rightarrow> buckets \<times> acquire" where
  "take_from policy key now entries =
     (let bucket = (case map_of entries key of
                      Some bucket \<Rightarrow> bucket
                    | None \<Rightarrow> \<lparr>tokens_left = f64_of_nat (burst policy), last_refill = now\<rparr>);
          (bucket, result) = take_token policy (refill policy now bucket)
      in (AList.update key bucket entries, result))"

definition at_capacity :: "rate_limit_policy \<Rightarrow> digest option \<Rightarrow> buckets \<Rightarrow> bool" where
  "at_capacity policy key entries \<longleftrightarrow> map_of entries key = None \<and> max_identities policy \<le> length entries"

definition try_acquire ::
    "(buckets \<Rightarrow> buckets) \<Rightarrow> rate_limiter \<Rightarrow> digest option \<Rightarrow> nat \<Rightarrow> rate_limiter \<times> acquire" where
  \<comment> \<open>\<open>hash_iter\<close> lists the entries of a hash map in its iteration order\<close>
  "try_acquire hash_iter limiter key now =
     (let policy = limiter_policy limiter;
          entries = limiter_buckets limiter
      in if at_capacity policy key entries \<and> overflow policy = RejectNew then
           (limiter, deny (f64_max (f64_div f64_one (f64_of_nat (rps policy))) (f64_of_rat (1 / 1000))))
         else
           (let folded = at_capacity policy key entries;
                key = (if folded then None else key);
                entries = (if folded \<and> at_capacity policy key entries then
                             (case fullest (hash_iter entries) of
                                Some victim \<Rightarrow> AList.delete victim entries | None \<Rightarrow> entries)
                           else entries);
                (entries, result) = take_from policy key now entries
            in (limiter\<lparr>limiter_buckets := entries\<rparr>, result)))"






fun acquire_all ::
    "(buckets \<Rightarrow> buckets) \<Rightarrow> rate_limiter \<Rightarrow> (digest option \<times> nat) list \<Rightarrow> rate_limiter \<times> acquire list" where
  \<comment> \<open>the calls that the lock of the bucket map serializes, in their order\<close>
  "acquire_all hash_iter limiter [] = (limiter, [])"
| "acquire_all hash_iter limiter ((key, now) # calls) =
     (let (limiter, result) = try_acquire hash_iter limiter key now;
          (limiter, results) = acquire_all hash_iter limiter calls
      in (limiter, result # results))"

section \<open>Nonnegative numbers\<close>

fun nonneg :: "f64 \<Rightarrow> bool" where
  "nonneg (Finite s q) \<longleftrightarrow> \<not> s \<and> 0 \<le> q"
| "nonneg (Infinite s) \<longleftrightarrow> \<not> s"
| "nonneg NaN \<longleftrightarrow> False"

fun at_least :: "rat \<Rightarrow> f64 \<Rightarrow> bool" where
  "at_least c (Finite s q) \<longleftrightarrow> \<not> s \<and> c \<le> q"
| "at_least c (Infinite s) \<longleftrightarrow> \<not> s"
| "at_least c NaN \<longleftrightarrow> False"

lemma nonneg_at_least: "nonneg x \<longleftrightarrow> at_least 0 x"
  by (cases x) simp_all

lemma at_least_round: "representable c \<Longrightarrow> c \<le> q \<Longrightarrow> at_least c (f64_round False q)"
  using round_mag_ge [of c q] representable_nonneg [of c] by (auto simp: f64_round_def split: option.split)


lemma at_least_add:
  assumes "nonneg x" "at_least c y" "representable c"
  shows "at_least c (f64_add x y)"
proof -
  have "0 \<le> c" using assms(3) by (rule representable_nonneg)
  then show ?thesis
    using assms by (cases x; cases y) (auto simp: Let_def f64_of_rat_def intro!: at_least_round)
qed

lemma at_least_mul:
  assumes "at_least c x" "1 \<le> n" "representable c"
  shows "at_least c (f64_mul x (Finite False (of_nat n)))"
proof (cases x)
  case (Finite s q)
  then have "0 \<le> c" "c \<le> q" using assms representable_nonneg by auto
  moreover have "q * 1 \<le> q * of_nat n" using assms(2) \<open>0 \<le> c\<close> \<open>c \<le> q\<close> by (intro mult_left_mono) auto
  ultimately show ?thesis using Finite assms by (auto intro!: at_least_round)
qed (use assms in auto)

lemma nonneg_div: "nonneg x \<Longrightarrow> 0 < n \<Longrightarrow> nonneg (f64_div x (Finite False (of_nat n)))"
  by (cases x) (auto simp: nonneg_at_least intro!: at_least_round)

lemma f64_of_nat_exact: "n \<le> 2 ^ 53 \<Longrightarrow> f64_of_nat n = Finite False (of_nat n)"
  by (simp add: f64_of_nat_def f64_round_def round_mag_exact representable_nat)

lemma nonneg_of_nat: "nonneg (f64_of_nat n)"
  by (simp add: f64_of_nat_def nonneg_at_least at_least_round)

lemma nonneg_secs: "nonneg (as_secs_f64 d)"
proof -
  have "nonneg (f64_div (f64_of_nat (d mod NANOS_PER_SEC)) (f64_of_nat NANOS_PER_SEC))"
    using nonneg_div [OF nonneg_of_nat, of NANOS_PER_SEC] f64_of_nat_exact [of NANOS_PER_SEC] by simp
  then show ?thesis unfolding as_secs_f64_def
    using at_least_add [OF nonneg_of_nat, of 0] by (simp add: nonneg_at_least)
qed



lemma f64_as_secs_wf: "f64_wf (as_secs_f64 d)"
  unfolding as_secs_f64_def f64_of_nat_def by (intro f64_arith_wf f64_round_wf) simp_all

section \<open>One bucket\<close>

definition policy_ok :: "rate_limit_policy \<Rightarrow> bool" where
  "policy_ok policy \<longleftrightarrow> 1 \<le> rps policy \<and> rps policy \<le> U32_MAX \<and> 1 \<le> burst policy \<and> burst policy \<le> U32_MAX
     \<and> 1 \<le> max_identities policy"

lemma optional_positive_Inr:
  "optional_positive env name = Inr (Some n) \<Longrightarrow> 1 \<le> n \<and> n \<le> U32_MAX"
  by (auto simp: optional_positive_def parse_positive_def result_simps dest: parse_unsigned_bound
      split: option.splits if_splits)

lemma resolved_policy_ok:
  assumes "resolve_rate_limit_policy header_name_ok env = Inr (Some policy)"
  shows "policy_ok policy"
proof -
  obtain rate burst_setting header identities choice where
    r: "optional_positive env ''RATE_LIMIT_RPS'' = Inr rate" "optional_positive env ''RATE_LIMIT_BURST'' = Inr burst_setting"
    "resolve_max_identities env = Inr identities"
    and p: "(case rate of
       None \<Rightarrow>
         and_then (for_each (\<lambda>name. ensure (env name = None) (CompanionWithoutRps name)) COMPANION_SETTINGS) (\<lambda>_.
         Inr None)
     | Some rate \<Rightarrow>
         Inr (Some \<lparr>rps = rate, burst = (case burst_setting of Some n \<Rightarrow> n | None \<Rightarrow> rate),
                    trusted_identity_header = header, max_identities = identities, overflow = choice\<rparr>)) = Inr (Some policy)"
    using assms unfolding resolve_rate_limit_policy_def and_then_Inr_iff by blast
  obtain n where n: "rate = Some n"
    using p by (cases rate) (auto simp: and_then_Inr_iff)
  have "1 \<le> identities"
    using r(3) by (auto simp: resolve_max_identities_def DEFAULT_RATE_LIMIT_MAX_IDENTITIES_def
        MIN_RATE_LIMIT_MAX_IDENTITIES_def split: option.splits if_splits)
  then show ?thesis
    using p n optional_positive_Inr [OF r(1) [unfolded n]] r(2)
    by (auto simp: policy_ok_def dest: optional_positive_Inr split: option.splits)
qed

definition bucket_ok :: "rate_limit_policy \<Rightarrow> token_bucket \<Rightarrow> bool" where
  "bucket_ok policy bucket \<longleftrightarrow> (\<exists>q. tokens_left bucket = Finite False q \<and> representable q \<and> q \<le> of_nat (burst policy))"

lemma policy_exact:
  assumes "policy_ok policy"
  shows "f64_of_nat (rps policy) = Finite False (of_nat (rps policy))"
    "f64_of_nat (burst policy) = Finite False (of_nat (burst policy))"
  using assms by (simp_all add: policy_ok_def f64_of_nat_exact)

lemma f64_min_bounded:
  assumes "nonneg x" "f64_wf x" "representable c"
  shows "\<exists>q. f64_min x (Finite False c) = Finite False q \<and> representable q \<and> q \<le> c"
  using assms by (cases x) (simp_all add: f64_min_def f64_lt_def)

lemma refill_ok:
  assumes "policy_ok policy" "bucket_ok policy bucket"
  shows "bucket_ok policy (refill policy now bucket)"
proof (cases "0 < now - last_refill bucket")
  case True
  obtain q where q: "tokens_left bucket = Finite False q" "representable q" using assms(2) unfolding bucket_ok_def by blast
  let ?x = "f64_add (tokens_left bucket) (f64_mul (as_secs_f64 (now - last_refill bucket)) (f64_of_nat (rps policy)))"
  have r: "1 \<le> rps policy" "representable (of_nat (burst policy))" "representable (of_nat (rps policy))"
    using assms(1) by (simp_all add: policy_ok_def representable_nat)
  have "nonneg ?x"
    using at_least_mul [of 0 "as_secs_f64 (now - last_refill bucket)" "rps policy"] nonneg_secs r(1)
      at_least_add [of "tokens_left bucket" 0] q representable_nonneg [OF q(2)]
    by (simp add: nonneg_at_least policy_exact [OF assms(1)])
  moreover have "f64_wf ?x"
    by (intro f64_arith_wf) (simp_all add: f64_as_secs_wf policy_exact [OF assms(1)] q r)
  ultimately obtain t where "f64_min ?x (Finite False (of_nat (burst policy))) = Finite False t" "representable t"
    "t \<le> of_nat (burst policy)" using f64_min_bounded r(2) by blast
  then show ?thesis using True by (simp add: bucket_ok_def refill_def Let_def policy_exact [OF assms(1)])
qed (use assms(2) in \<open>simp add: refill_def\<close>)


lemma round_unit:
  assumes "0 \<le> q" "q \<le> of_nat n" "n \<le> 2 ^ 53"
  obtains r where "f64_round False q = Finite False r" "0 \<le> r" "r \<le> of_nat n" "representable r"
proof -
  obtain r where r: "round_mag q = Some r" "0 \<le> r" "r \<le> of_nat n"
    using round_mag_le [OF representable_nat [OF assms(3)] assms(1,2)] by blast
  then show ?thesis using that round_mag_representable [OF assms(1) r(1)] by (simp add: f64_round_def)
qed

lemma deny_unit:
  assumes "0 \<le> q" "q \<le> 1"
  obtains d where "deny (Finite False q) = Denied d" "d \<le> NANOS_PER_SEC"
proof -
  have "round_half_even (q * of_nat NANOS_PER_SEC) \<le> of_nat NANOS_PER_SEC"
    using assms by (intro round_half_even_upper) simp
  then have d: "nat (round_half_even (q * of_nat NANOS_PER_SEC)) \<le> NANOS_PER_SEC" by simp
  then have "nat (round_half_even (q * of_nat NANOS_PER_SEC)) div NANOS_PER_SEC \<le> U64_MAX"
    using div_le_mono [OF d, of NANOS_PER_SEC] by simp
  then show ?thesis using that d by (simp add: deny_def Let_def)
qed

lemma unit_div:
  assumes "0 \<le> q" "q \<le> 1" "1 \<le> n"
  obtains r where "f64_div (Finite False q) (Finite False (of_nat n)) = Finite False r" "0 \<le> r" "r \<le> 1"
proof -
  have "q / of_nat n \<le> of_nat 1" using assms by (simp add: divide_le_eq)
  then obtain r where "f64_round False (q / of_nat n) = Finite False r" "0 \<le> r" "r \<le> of_nat 1"
    using round_unit [of "q / of_nat n" 1] assms(1) by auto
  then show ?thesis using that assms(3) by auto
qed

lemma take_token_cases:
  assumes "policy_ok policy" "bucket_ok policy bucket"
  obtains (grant) q q' where "tokens_left bucket = Finite False q" "1 \<le> q" "representable q'" "of_int \<lceil>q\<rceil> - 1 \<ge> q'"
      "take_token policy bucket = (bucket\<lparr>tokens_left := Finite False q'\<rparr>, Granted)"
    | (denial) q d where "tokens_left bucket = Finite False q" "q < 1" "take_token policy bucket = (bucket, Denied d)"
proof -
  obtain q where q: "tokens_left bucket = Finite False q" "representable q" "q \<le> of_nat (burst policy)"
    using assms(2) unfolding bucket_ok_def by blast
  then have q0: "0 \<le> q" by (simp add: representable_nonneg)
  show ?thesis
  proof (cases "1 \<le> q")
    case True
    define n where "n = nat (\<lceil>q\<rceil> - 1)"
    have n: "of_nat n = (of_int \<lceil>q\<rceil> - 1 :: rat)" "q - 1 \<le> of_nat n" using True by (simp_all add: n_def)
    have "\<lceil>q\<rceil> \<le> int (burst policy)" using q(3) by (simp add: ceiling_le_iff)
    then have "n \<le> burst policy" "burst policy \<le> 2 ^ 53" using assms(1) by (auto simp: n_def policy_ok_def)
    then have "n \<le> 2 ^ 53" by (rule order_trans)
    then obtain r where r: "f64_round False (q - 1) = Finite False r" "0 \<le> r" "r \<le> of_nat n" "representable r"
      using round_unit [of "q - 1" n] True n(2) by auto
    have "f64_sub (Finite False q) f64_one = Finite False (if q = 1 then 0 else r)"
      using True r(1) by (auto simp: f64_sub_def Let_def f64_of_rat_def)
    then show ?thesis using True r n q(1)
      by (intro grant [of q "if q = 1 then 0 else r"]) (auto simp: take_token_def f64_ge_def)
  next
    case False
    then have "f64_sub f64_one (Finite False q) = f64_round False (1 - q)"
      by (simp add: f64_sub_def Let_def f64_of_rat_def)
    moreover obtain r where "f64_round False (1 - q) = Finite False r" "0 \<le> r" "r \<le> of_nat 1"
      using round_unit [of "1 - q" 1] False q0 by auto
    moreover obtain t where "f64_div (Finite False r) (Finite False (of_nat (rps policy))) = Finite False t" "0 \<le> t" "t \<le> 1"
      using unit_div [of r "rps policy"] calculation assms(1) by (auto simp: policy_ok_def)
    moreover obtain d where "deny (Finite False t) = Denied d" using deny_unit calculation by blast
    ultimately show ?thesis using False q(1)
      by (intro denial [of q d]) (auto simp: take_token_def f64_ge_def policy_exact [OF assms(1)])
  qed
qed

section \<open>All buckets\<close>

definition buckets_ok :: "rate_limit_policy \<Rightarrow> buckets \<Rightarrow> bool" where
  "buckets_ok policy entries \<longleftrightarrow> distinct (map fst entries) \<and> length entries \<le> max_identities policy
     \<and> (\<forall>bucket\<in>snd ` set entries. bucket_ok policy bucket)"

definition serves :: "rate_limit_policy \<Rightarrow> digest option \<Rightarrow> buckets \<Rightarrow> bool" where
  "serves policy key entries \<longleftrightarrow> buckets_ok policy entries
     \<and> (map_of entries key = None \<longrightarrow> length entries < max_identities policy)"

definition current :: "rate_limit_policy \<Rightarrow> digest option \<Rightarrow> nat \<Rightarrow> buckets \<Rightarrow> token_bucket" where
  "current policy key now entries = (case map_of entries key of
     Some bucket \<Rightarrow> bucket | None \<Rightarrow> \<lparr>tokens_left = f64_of_nat (burst policy), last_refill = now\<rparr>)"

lemma take_from_current:
  "take_from policy key now entries =
     (AList.update key (fst (take_token policy (refill policy now (current policy key now entries)))) entries,
      snd (take_token policy (refill policy now (current policy key now entries))))"
  by (simp add: take_from_def current_def Let_def split_beta)

lemma current_ok:
  assumes "policy_ok policy" "buckets_ok policy entries"
  shows "bucket_ok policy (current policy key now entries)"
proof (cases "map_of entries key")
  case None
  then show ?thesis using assms(1)
    by (simp add: current_def bucket_ok_def policy_exact policy_ok_def representable_nat)
next
  case (Some bucket)
  then have "bucket \<in> snd ` set entries" by (force dest: map_of_SomeD)
  then have "bucket_ok policy bucket" using assms(2) unfolding buckets_ok_def by blast
  then show ?thesis using Some by (simp add: current_def)
qed

lemma fullest_member:
  assumes "entries \<noteq> []"
  obtains victim where "fullest entries = Some victim" "victim \<in> fst ` set entries"
proof -
  obtain e es where e: "entries = e # es" using assms by (cases entries) simp_all
  have "foldl (\<lambda>best e. if P best e then best else e) e es \<in> set (e # es)" for P and e :: "'a" and es
  proof (induction es arbitrary: e)
    case (Cons a es)
    show ?case using Cons.IH [of "if P e a then e else a"] by (auto split: if_splits)
  qed simp
  from this [of "\<lambda>best e. compare_tokens (snd best) (snd e) = Greater" e es]
  show ?thesis by (intro that) (auto simp: fullest_def e)
qed

lemma length_delete:
  "distinct (map fst entries) \<Longrightarrow> k \<in> fst ` set entries \<Longrightarrow> Suc (length (AList.delete k entries)) = length entries"
proof (induction entries)
  case (Cons e entries)
  show ?case
  proof (cases "fst e = k")
    case True
    then have "AList.delete k entries = entries" using Cons.prems(1) by (auto intro!: delete_idem)
    then show ?thesis using True by (cases e) simp
  next
    case False
    then show ?thesis using Cons by (cases e) auto
  qed
qed simp

lemma try_acquire_cases:
  assumes "policy_ok (limiter_policy limiter)" "buckets_ok (limiter_policy limiter) (limiter_buckets limiter)"
    "\<And>entries. set (hash_iter entries) = set entries"
  obtains (rejected) d where "try_acquire hash_iter limiter key now = (limiter, Denied d)"
      "map_of (limiter_buckets limiter) key = None"
    | (tracked) key' where "serves (limiter_policy limiter) key' (limiter_buckets limiter)"
      "map_of (limiter_buckets limiter) key \<noteq> None \<longrightarrow> key' = key"
      "try_acquire hash_iter limiter key now =
        (limiter\<lparr>limiter_buckets := fst (take_from (limiter_policy limiter) key' now (limiter_buckets limiter))\<rparr>,
         snd (take_from (limiter_policy limiter) key' now (limiter_buckets limiter)))"
    | (evicted) victim where "victim \<in> fst ` set (limiter_buckets limiter)"
      "map_of (limiter_buckets limiter) key = None" "map_of (limiter_buckets limiter) None = None"
      "length (limiter_buckets limiter) = max_identities (limiter_policy limiter)"
      "try_acquire hash_iter limiter key now =
        (limiter\<lparr>limiter_buckets := fst (take_from (limiter_policy limiter) None now (AList.delete victim (limiter_buckets limiter)))\<rparr>,
         snd (take_from (limiter_policy limiter) None now (AList.delete victim (limiter_buckets limiter))))"
proof -
  define policy entries where [simp]: "policy = limiter_policy limiter" "entries = limiter_buckets limiter"
  consider (open_slot) "\<not> at_capacity policy key entries"
    | (reject) "at_capacity policy key entries" "overflow policy = RejectNew"
    | (fold_in) "at_capacity policy key entries" "overflow policy \<noteq> RejectNew" "\<not> at_capacity policy None entries"
    | (evict) "at_capacity policy key entries" "overflow policy \<noteq> RejectNew" "at_capacity policy None entries"
    by blast
  then show ?thesis
  proof cases
    case open_slot
    then show ?thesis using assms(2)
      by (intro tracked [of key]) (auto simp: serves_def at_capacity_def try_acquire_def Let_def split_beta)
  next
    case reject
    obtain a where a: "f64_div f64_one (Finite False (of_nat (rps policy))) = Finite False a" "0 \<le> a" "a \<le> 1"
      using unit_div [of 1 "rps policy"] assms(1) by (auto simp: policy_ok_def)
    obtain b where b: "f64_of_rat (1 / 1000) = Finite False b" "0 \<le> b" "b \<le> of_nat 1"
      using round_unit [of "1 / 1000" 1] by (auto simp: f64_of_rat_def)
    have "f64_max (Finite False a) (Finite False b) = Finite False (if a < b then b else a)"
      by (simp add: f64_max_def f64_lt_def)
    moreover have "0 \<le> (if a < b then b else a)" "(if a < b then b else a) \<le> 1" using a b by simp_all
    then obtain d where "deny (Finite False (if a < b then b else a)) = Denied d" by (rule deny_unit)
    ultimately have "try_acquire hash_iter limiter key now = (limiter, Denied d)"
      using reject a b policy_exact(1) [OF assms(1)] by (simp add: try_acquire_def)
    then show ?thesis using reject by (intro rejected) (simp_all add: at_capacity_def)
  next
    case fold_in
    then show ?thesis using assms(2)
      by (intro tracked [of None]) (auto simp: serves_def at_capacity_def try_acquire_def Let_def split_beta)
  next
    case evict
    then have "entries \<noteq> []" using assms(1) by (auto simp: at_capacity_def policy_ok_def)
    then have "hash_iter entries \<noteq> []" using assms(3) [of entries] by (metis set_empty)
    then obtain victim where "fullest (hash_iter entries) = Some victim" "victim \<in> fst ` set entries"
      using assms(3) fullest_member by metis
    then show ?thesis using evict assms(2)
      by (intro evicted [of victim])
         (auto simp: buckets_ok_def at_capacity_def try_acquire_def Let_def split_beta)
  qed
qed

lemma set_update_snd: "snd ` set (AList.update k v entries) \<subseteq> insert v (snd ` set entries)"
  by (induction entries) auto

lemma length_update:
  "length (AList.update k v entries) = (if map_of entries k = None then Suc (length entries) else length entries)"
  by (induction entries) auto

lemma bucket_ok_take:
  assumes "policy_ok policy" "bucket_ok policy bucket"
  shows "bucket_ok policy (fst (take_token policy bucket)) \<and> snd (take_token policy bucket) \<noteq> Panicked"
  using assms
proof (cases rule: take_token_cases)
  case (grant q q')
  obtain b where "tokens_left bucket = Finite False b" "b \<le> of_nat (burst policy)"
    using assms(2) unfolding bucket_ok_def by blast
  then have "q \<le> of_nat (burst policy)" using grant(1) by simp
  then have "\<lceil>q\<rceil> \<le> int (burst policy)" by (simp add: ceiling_le_iff)
  then have "of_int \<lceil>q\<rceil> \<le> (of_int (int (burst policy)) :: rat)" by (simp only: of_int_le_iff)
  then show ?thesis using grant by (auto simp: bucket_ok_def)
qed (use assms(2) in auto)

lemma buckets_ok_update:
  assumes "serves policy key entries" "bucket_ok policy bucket"
  shows "buckets_ok policy (AList.update key bucket entries)"
proof -
  have "bucket_ok policy b" if "b \<in> snd ` set (AList.update key bucket entries)" for b
    using subsetD [OF set_update_snd that] assms unfolding serves_def buckets_ok_def by (elim insertE) auto
  then show ?thesis using assms(1) by (auto simp: serves_def buckets_ok_def length_update distinct_update)
qed

lemma buckets_ok_take:
  assumes "policy_ok policy" "serves policy key entries"
  shows "buckets_ok policy (fst (take_from policy key now entries)) \<and> snd (take_from policy key now entries) \<noteq> Panicked"
proof -
  have ok: "buckets_ok policy entries" using assms(2) by (simp add: serves_def)
  note step = bucket_ok_take [OF assms(1) refill_ok [OF assms(1) current_ok [OF assms(1) ok]]]
  show ?thesis unfolding take_from_current fst_conv snd_conv
    by (intro conjI buckets_ok_update [OF assms(2)] step [THEN conjunct1] step [THEN conjunct2])
qed

lemma buckets_ok_delete:
  assumes "buckets_ok policy entries" "victim \<in> fst ` set entries" "length entries = max_identities policy"
  shows "serves policy key (AList.delete victim entries)"
proof -
  have "Suc (length (AList.delete victim entries)) = length entries"
    using assms(1,2) by (simp add: buckets_ok_def length_delete)
  moreover have "set (AList.delete victim entries) \<subseteq> set entries" by (auto simp: AList.delete_eq)
  ultimately show ?thesis using assms by (auto simp: serves_def buckets_ok_def distinct_delete)
qed

lemma limiter_policy_kept: "limiter_policy (fst (try_acquire hash_iter limiter key now)) = limiter_policy limiter"
  by (simp add: try_acquire_def Let_def split_beta)

lemma try_acquire_ok:
  assumes "policy_ok (limiter_policy limiter)" "buckets_ok (limiter_policy limiter) (limiter_buckets limiter)"
    "\<And>entries. set (hash_iter entries) = set entries" "try_acquire hash_iter limiter key now = (limiter', result)"
  shows "buckets_ok (limiter_policy limiter) (limiter_buckets limiter') \<and> result \<noteq> Panicked"
  using assms(1-3)
proof (cases rule: try_acquire_cases [where key = key and now = now])
  case (rejected d)
  then show ?thesis using assms(2,4) by auto
next
  case (tracked key')
  then show ?thesis using assms(4) buckets_ok_take [OF assms(1) tracked(1), of now] by auto
next
  case (evicted victim)
  then show ?thesis
    using assms(4) buckets_ok_take [OF assms(1) buckets_ok_delete [OF assms(2) evicted(1,4)], where now = now] by auto
qed

lemma acquire_all_ok:
  assumes "policy_ok (limiter_policy limiter)" "buckets_ok (limiter_policy limiter) (limiter_buckets limiter)"
    "\<And>entries. set (hash_iter entries) = set entries" "acquire_all hash_iter limiter calls = (limiter', results)"
  shows "limiter_policy limiter' = limiter_policy limiter
    \<and> buckets_ok (limiter_policy limiter) (limiter_buckets limiter') \<and> Panicked \<notin> set results"
  using assms(1,2,4)
proof (induction calls arbitrary: limiter results)
  case (Cons call calls)
  obtain key now where call: "call = (key, now)" by fastforce
  obtain limiter1 result where one: "try_acquire hash_iter limiter key now = (limiter1, result)" by fastforce
  obtain rest where rest: "acquire_all hash_iter limiter1 calls = (limiter', rest)" "results = result # rest"
    using Cons.prems(3) call one by (auto simp: Let_def split: prod.splits)
  have p: "limiter_policy limiter1 = limiter_policy limiter"
    using limiter_policy_kept [of hash_iter limiter key now] one by simp
  have ok: "buckets_ok (limiter_policy limiter) (limiter_buckets limiter1)" "result \<noteq> Panicked"
    using try_acquire_ok [OF Cons.prems(1,2) assms(3) one] by blast+
  show ?case using Cons.IH [of limiter1 rest] Cons.prems(1) p ok rest by auto
qed simp

section \<open>How much one instant admits\<close>

definition worth :: "rate_limit_policy \<Rightarrow> nat \<Rightarrow> token_bucket \<Rightarrow> nat" where
  "worth policy now bucket =
     (if last_refill bucket < now then burst policy else nat \<lceil>f64_val (tokens_left bucket)\<rceil>)"

definition total_worth :: "rate_limit_policy \<Rightarrow> nat \<Rightarrow> buckets \<Rightarrow> nat" where
  "total_worth policy now entries = sum_list (map (\<lambda>entry. worth policy now (snd entry)) entries)"

definition credit :: "rate_limit_policy \<Rightarrow> buckets \<Rightarrow> nat" where
  "credit policy entries = burst policy *
     (max_identities policy - length entries + (if map_of entries None = None then 1 else 0))"

abbreviation grants :: "acquire \<Rightarrow> nat" where "grants result \<equiv> of_bool (result = Granted)"

lemma bucket_worth: "bucket_ok policy bucket \<Longrightarrow> worth policy now bucket \<le> burst policy"
  by (auto simp: bucket_ok_def worth_def nat_le_iff ceiling_le_iff)

lemma worth_refill:
  assumes "policy_ok policy" "bucket_ok policy bucket"
  shows "worth policy now (refill policy now bucket) \<le> worth policy now bucket \<and> now \<le> last_refill (refill policy now bucket)"
proof (cases "last_refill bucket < now")
  case True
  then show ?thesis
    using bucket_worth [OF refill_ok [OF assms], of now now] by (simp add: worth_def refill_def Let_def)
qed (simp add: refill_def)

lemma worth_take:
  assumes "policy_ok policy" "bucket_ok policy bucket" "now \<le> last_refill bucket"
  shows "worth policy now (fst (take_token policy bucket)) + grants (snd (take_token policy bucket))
    \<le> worth policy now bucket"
  using assms(1,2)
proof (cases rule: take_token_cases)
  case (grant q q')
  have "q' \<le> of_int (\<lceil>q\<rceil> - 1)" using grant(4) by simp
  then have "\<lceil>q'\<rceil> \<le> \<lceil>q\<rceil> - 1" by (rule ceiling_le)
  moreover have "1 \<le> \<lceil>q\<rceil>" using grant(2) by (simp add: le_ceiling_iff)
  ultimately have "nat \<lceil>q'\<rceil> + 1 \<le> nat \<lceil>q\<rceil>" by linarith
  then show ?thesis using grant assms(3) by (simp add: worth_def)
qed simp

lemma worth_step:
  assumes "policy_ok policy" "bucket_ok policy bucket"
  shows "worth policy now (fst (take_token policy (refill policy now bucket)))
      + grants (snd (take_token policy (refill policy now bucket))) \<le> worth policy now bucket"
proof -
  note r = worth_refill [OF assms, of now]
  show ?thesis using worth_take [OF assms(1) refill_ok [OF assms] r [THEN conjunct2]] r [THEN conjunct1] by (rule order_trans)
qed

lemma total_worth_new:
  "map_of entries key = None \<Longrightarrow>
   total_worth policy now (AList.update key bucket entries) = total_worth policy now entries + worth policy now bucket"
  by (induction entries) (auto simp: total_worth_def split: if_splits)

lemma total_worth_old:
  "map_of entries key = Some old \<Longrightarrow>
   total_worth policy now (AList.update key bucket entries) + worth policy now old
     = total_worth policy now entries + worth policy now bucket"
  by (induction entries) (auto simp: total_worth_def split: if_splits)

lemma total_worth_delete: "total_worth policy now (AList.delete key entries) \<le> total_worth policy now entries"
  by (induction entries) (auto simp: total_worth_def)

lemma take_from_worth:
  assumes "policy_ok policy" "serves policy key entries"
  shows "total_worth policy now (fst (take_from policy key now entries)) + credit policy (fst (take_from policy key now entries))
      + grants (snd (take_from policy key now entries)) \<le> total_worth policy now entries + credit policy entries"
proof -
  let ?b = "current policy key now entries"
  let ?t = "take_token policy (refill policy now ?b)"
  have ok: "bucket_ok policy ?b" using assms by (simp add: serves_def current_ok)
  note step = worth_step [OF assms(1) ok, of now]
  show ?thesis
  proof (cases "map_of entries key")
    case None
    have "worth policy now (fst ?t) + grants (snd ?t) \<le> burst policy"
      using step bucket_worth [OF ok, of now] by (rule order_trans)
    moreover have "credit policy (AList.update key (fst ?t) entries) + burst policy \<le> credit policy entries"
    proof -
      have "Suc (max_identities policy - Suc (length entries)) = max_identities policy - length entries"
        using assms(2) None by (auto simp: serves_def)
      then have "burst policy * (max_identities policy - length entries)
          = burst policy + burst policy * (max_identities policy - Suc (length entries))"
        by (metis mult_Suc_right)
      then show ?thesis using None by (simp add: credit_def length_update update_conv' add_mult_distrib2)
    qed
    ultimately show ?thesis by (simp add: take_from_current total_worth_new [OF None])
  next
    case (Some old)
    then have old: "?b = old" by (simp add: current_def)
    have "credit policy (AList.update key (fst ?t) entries) = credit policy entries"
      using Some by (auto simp: credit_def length_update update_conv')
    then show ?thesis using step total_worth_old [OF Some, of policy now "fst ?t"] unfolding old take_from_current by simp
  qed
qed

lemma try_acquire_worth:
  assumes "policy_ok (limiter_policy limiter)" "buckets_ok (limiter_policy limiter) (limiter_buckets limiter)"
    "\<And>entries. set (hash_iter entries) = set entries" "try_acquire hash_iter limiter key now = (limiter', result)"
  shows "total_worth (limiter_policy limiter) now (limiter_buckets limiter')
      + credit (limiter_policy limiter) (limiter_buckets limiter') + grants result
    \<le> total_worth (limiter_policy limiter) now (limiter_buckets limiter)
      + credit (limiter_policy limiter) (limiter_buckets limiter)"
  using assms(1-3)
proof (cases rule: try_acquire_cases [where key = key and now = now])
  case (rejected d)
  then show ?thesis using assms(4) by auto
next
  case (tracked key')
  then show ?thesis using assms(4) take_from_worth [OF assms(1) tracked(1), of now] by auto
next
  case (evicted victim)
  let ?policy = "limiter_policy limiter" and ?kept = "AList.delete victim (limiter_buckets limiter)"
  let ?b = "current ?policy None now ?kept"
  let ?t = "take_token ?policy (refill ?policy now ?b)"
  have kept: "serves ?policy None ?kept" by (rule buckets_ok_delete [OF assms(2) evicted(1,4)])
  have new: "map_of ?kept None = None" using evicted(3) by (simp add: delete_conv')
  have ok: "bucket_ok ?policy ?b" using kept assms(1) by (simp add: serves_def current_ok)
  have "worth ?policy now (fst ?t) + grants (snd ?t) \<le> burst ?policy"
    using worth_step [OF assms(1) ok, of now] bucket_worth [OF ok, of now] by (rule order_trans)
  moreover have "Suc (length ?kept) = length (limiter_buckets limiter)"
    using assms(2) evicted(1) by (simp add: buckets_ok_def length_delete)
  then have "credit ?policy (AList.update None (fst ?t) ?kept) + burst ?policy \<le> credit ?policy (limiter_buckets limiter)"
    using evicted(3,4) new by (simp add: credit_def length_update update_conv')
  ultimately show ?thesis using assms(4) evicted(5) total_worth_delete [of ?policy now victim "limiter_buckets limiter"]
    by (auto simp: take_from_current total_worth_new [OF new])
qed

lemma acquire_all_worth:
  assumes "policy_ok (limiter_policy limiter)" "buckets_ok (limiter_policy limiter) (limiter_buckets limiter)"
    "\<And>entries. set (hash_iter entries) = set entries"
    "acquire_all hash_iter limiter (map (\<lambda>key. (key, now)) keys) = (limiter', results)"
  shows "count_list results Granted
    \<le> total_worth (limiter_policy limiter) now (limiter_buckets limiter)
      + credit (limiter_policy limiter) (limiter_buckets limiter)"
  using assms(1,2,4)
proof (induction keys arbitrary: limiter results)
  case (Cons key keys)
  obtain limiter1 result where one: "try_acquire hash_iter limiter key now = (limiter1, result)" by fastforce
  obtain rest where rest: "acquire_all hash_iter limiter1 (map (\<lambda>key. (key, now)) keys) = (limiter', rest)"
    "results = result # rest"
    using Cons.prems(3) one by (auto simp: Let_def split: prod.splits)
  have p: "limiter_policy limiter1 = limiter_policy limiter"
    using limiter_policy_kept [of hash_iter limiter key now] one by simp
  have "buckets_ok (limiter_policy limiter) (limiter_buckets limiter1)"
    using try_acquire_ok [OF Cons.prems(1,2) assms(3) one] by blast
  then have "count_list rest Granted \<le> total_worth (limiter_policy limiter) now (limiter_buckets limiter1)
      + credit (limiter_policy limiter) (limiter_buckets limiter1)"
    using Cons.IH [of limiter1 rest] Cons.prems(1) rest p by simp
  then show ?case
    using try_acquire_worth [OF Cons.prems(1,2) assms(3) one] rest(2) by (auto split: if_splits)
qed simp

lemma total_worth_bound:
  "buckets_ok policy entries \<Longrightarrow> total_worth policy now entries \<le> burst policy * length entries"
proof -
  assume "buckets_ok policy entries"
  then have "\<forall>e\<in>set entries. worth policy now (snd e) \<le> burst policy"
    by (auto simp: buckets_ok_def intro: bucket_worth)
  then show ?thesis unfolding total_worth_def
    by (induction entries) (auto intro: add_mono)
qed

section \<open>Waiting\<close>








lemma constant_time_eq_iff:
  assumes "length left = length right"
  shows "constant_time_eq left right \<longleftrightarrow> left = right"
proof -
  have "foldl (\<lambda>diff (a, b). diff OR (a XOR b)) d (zip left right) = 0 \<longleftrightarrow> d = 0 \<and> left = right" for d :: "8 word"
    using assms
  proof (induction left right arbitrary: d rule: list_induct2)
    case (Cons a left b right)
    have "a XOR b = 0 \<longleftrightarrow> a = b" by (metis bit.xor_left_self xor.right_neutral xor_self_eq)
    then have "d OR (a XOR b) = 0 \<longleftrightarrow> d = 0 \<and> a = b" by (simp add: or_eq_0_iff)
    then show ?case using Cons.IH by simp
  qed simp
  then show ?thesis by (simp add: constant_time_eq_def)
qed

section \<open>Properties\<close>

lemma resolved_start:
  assumes "resolve_rate_limit_policy header_name_ok env = Inr (Some policy)"
  shows "policy_ok (limiter_policy (with_expected_digest policy expected))"
    "buckets_ok (limiter_policy (with_expected_digest policy expected)) (limiter_buckets (with_expected_digest policy expected))"
  using resolved_policy_ok [OF assms] by (simp_all add: with_expected_digest_def buckets_ok_def)

definition sample_env :: "string \<Rightarrow> string option" where
  "sample_env name = (if name = ''RATE_LIMIT_RPS'' then Some ''1'' else None)"

definition sample_policy :: rate_limit_policy where
  "sample_policy = \<lparr>rps = 1, burst = 1, trusted_identity_header = None, max_identities = 4096, overflow = FoldAnonymous\<rparr>"

lemma sample_resolved: "resolve_rate_limit_policy (\<lambda>_. True) sample_env = Inr (Some sample_policy)"
  by (simp add: resolve_rate_limit_policy_def optional_positive_def parse_positive_def resolve_identity_header_def
      resolve_max_identities_def resolve_overflow_def sample_env_def sample_policy_def
      DEFAULT_RATE_LIMIT_MAX_IDENTITIES_def rust_str)

text \<open>C11: Whatever requests arrive, a limiter built from a resolved policy never tracks more identities than
  its policy allows, tracks each once, keeps every bucket between zero and the burst, and never panics on
  a wait time, with the rounding of binary64 taken into account.\<close>

theorem limiter_invariant:
  assumes "resolve_rate_limit_policy header_name_ok env = Inr (Some policy)"
    "\<And>entries. set (hash_iter entries) = set entries"
    "acquire_all hash_iter (with_expected_digest policy expected) calls = (limiter, results)"
  shows "distinct (map fst (limiter_buckets limiter)) \<and> length (limiter_buckets limiter) \<le> max_identities policy
    \<and> (\<forall>bucket\<in>snd ` set (limiter_buckets limiter).
         \<exists>q. tokens_left bucket = Finite False q \<and> 0 \<le> q \<and> q \<le> of_nat (burst policy))
    \<and> Panicked \<notin> set results"
proof -
  note ok = acquire_all_ok [OF resolved_start [OF assms(1)] assms(2,3)]
  then have "buckets_ok policy (limiter_buckets limiter)" "Panicked \<notin> set results"
    by (simp_all add: with_expected_digest_def)
  then show ?thesis unfolding buckets_ok_def bucket_ok_def by (blast intro: representable_nonneg)
qed

theorem limiter_invariant_witness:
  "\<exists>limiter results. acquire_all (\<lambda>entries. entries) (with_expected_digest sample_policy None) [(None, 0), (None, 0)] = (limiter, results)
     \<and> length (limiter_buckets limiter) \<le> 4096 \<and> Panicked \<notin> set results"
proof -
  obtain limiter results where
    run: "acquire_all (\<lambda>entries. entries) (with_expected_digest sample_policy None) [(None, 0), (None, 0)] = (limiter, results)"
    by (cases "acquire_all (\<lambda>entries. entries) (with_expected_digest sample_policy None) [(None, 0), (None, 0)]")
  from limiter_invariant [OF sample_resolved _ run] show ?thesis using run by (simp add: sample_policy_def)
qed

text \<open>C13: Rotating identities gains no more than the budget: in one instant the limiter admits at most one
  burst for each identity it may track and one for the anonymous bucket, whatever identities the requests
  present and whatever came before.\<close>

theorem instant_burst_bound:
  assumes "resolve_rate_limit_policy header_name_ok env = Inr (Some policy)"
    "\<And>entries. set (hash_iter entries) = set entries"
    "acquire_all hash_iter (with_expected_digest policy expected) calls = (limiter, earlier)"
    "acquire_all hash_iter limiter (map (\<lambda>key. (key, now)) keys) = (limiter', results)"
  shows "count_list results Granted \<le> burst policy * (max_identities policy + 1)"
proof -
  have p: "limiter_policy limiter = policy" and ok: "buckets_ok policy (limiter_buckets limiter)"
    using acquire_all_ok [OF resolved_start [OF assms(1)] assms(2,3)] by (simp_all add: with_expected_digest_def)
  have "count_list results Granted \<le> total_worth policy now (limiter_buckets limiter) + credit policy (limiter_buckets limiter)"
    using acquire_all_worth [OF _ _ assms(2,4)] p ok resolved_policy_ok [OF assms(1)] by simp
  also have "\<dots> \<le> burst policy * length (limiter_buckets limiter)
      + burst policy * (max_identities policy - length (limiter_buckets limiter) + 1)"
    using total_worth_bound [OF ok, of now] by (intro add_mono) (auto simp: credit_def)
  also have "\<dots> = burst policy * (max_identities policy + 1)"
    using ok by (simp add: buckets_ok_def flip: add_mult_distrib2)
  finally show ?thesis .
qed

theorem instant_burst_bound_witness:
  "\<exists>limiter results. acquire_all (\<lambda>entries. entries) (with_expected_digest sample_policy None)
       (map (\<lambda>key. (key, 0)) [None, None, Some []]) = (limiter, results)
     \<and> count_list results Granted \<le> 4097"
proof -
  obtain limiter results where
    run: "acquire_all (\<lambda>entries. entries) (with_expected_digest sample_policy None)
       (map (\<lambda>key. (key, 0)) [None, None, Some []]) = (limiter, results)"
    by (cases "acquire_all (\<lambda>entries. entries) (with_expected_digest sample_policy None)
       (map (\<lambda>key. (key, 0)) [None, None, Some []])")
  have none: "acquire_all (\<lambda>entries. entries) (with_expected_digest sample_policy None) []
      = (with_expected_digest sample_policy None, [])" by simp
  from instant_burst_bound [OF sample_resolved _ none run] show ?thesis using run by (simp add: sample_policy_def)
qed









text \<open>C31: Callers cannot choose their bucket: without a trusted identity header every request either uses
  the bucket of the configured credential, and then its bearer token has that digest, or shares the
  anonymous bucket.\<close>

theorem unverified_callers_share:
  assumes "trusted_identity_header (limiter_policy limiter) = None" "\<And>s. length (sha256_bytes s) = 32"
    "\<And>expected. expected_digest limiter = Some expected \<Longrightarrow> length expected = 32"
  shows "rate_key sha256_bytes limiter request =
    (case (header_str request ''authorization'', expected_digest limiter) of
       (Some credential, Some expected) \<Rightarrow>
         if \<exists>token. credential = ''Bearer '' @ token \<and> sha256_bytes token = expected then Some expected else None
     | _ \<Rightarrow> None)"
proof (cases "header_str request ''authorization''")
  case (Some credential)
  then show ?thesis
  proof (cases "expected_digest limiter")
    case expected: (Some expected)
    have same: "constant_time_eq (sha256_bytes token) expected \<longleftrightarrow> sha256_bytes token = expected" for token
      using assms(2) assms(3) [OF expected] by (simp add: constant_time_eq_iff)
    show ?thesis
    proof (cases "strip_prefix ''Bearer '' credential")
      case None
      then have "\<not> (\<exists>token. credential = ''Bearer '' @ token)" by (metis option.distinct(1) strip_prefix_Some_iff)
      then show ?thesis using Some expected None assms(1) by (simp add: rate_key_def)
    next
      case token: (Some token)
      then have "credential = ''Bearer '' @ token" by (simp add: strip_prefix_Some_iff)
      then show ?thesis using Some expected token assms(1) same by (simp add: rate_key_def Let_def)
    qed
  qed (use assms(1) in \<open>simp add: rate_key_def Let_def split: option.split\<close>)
qed (use assms(1) in \<open>simp add: rate_key_def\<close>)

theorem unverified_callers_share_witness:
  "rate_key (\<lambda>_. replicate 32 0) (with_expected_digest sample_policy (Some (replicate 32 1)))
     \<lparr>uri_path = ''/work'', header_str = (\<lambda>_. Some ''Bearer forged'')\<rparr> = None"
  using unverified_callers_share [of "with_expected_digest sample_policy (Some (replicate 32 1))" "\<lambda>_. replicate 32 0"
      "\<lparr>uri_path = ''/work'', header_str = (\<lambda>_. Some ''Bearer forged'')\<rparr>"]
  by (simp add: with_expected_digest_def sample_policy_def)

end
