(* ===== verification/Anchored.thy ===== *)
theory Anchored
  imports Prelude "HOL-Library.Product_Lexorder" "HOL-Library.Multiset"
begin

text \<open>
  Hash-anchored line patches, \<open>files/anchored.rs\<close>. A patch names the lines it edits by number and digest;
  all anchors are checked against one snapshot of the file and the edits are applied from the bottom up.
  The hexadecimal SHA-256 digest is a parameter. The reference definition \<open>expand\<close> says, line by line,
  what the patched file holds; the bottom-up application is proved equal to it.
\<close>

section \<open>Anchors\<close>

definition ANCHOR_HASH_LEN :: nat where "ANCHOR_HASH_LEN = 8"

record anchored_line =
  line_no :: nat
  hash :: string
  line_text :: string

definition anchor :: "anchored_line \<Rightarrow> string" where
  "anchor line = nat_to_string (line_no line) @ '':'' @ hash line"

datatype patch_op = Replace | Append | Prepend

definition parse_op :: "string \<Rightarrow> patch_op option" where
  "parse_op v =
     (if v = ''replace'' then Some Replace
      else if v = ''append'' then Some Append
      else if v = ''prepend'' then Some Prepend
      else None)"

fun op_as_str :: "patch_op \<Rightarrow> string" where
  "op_as_str Replace = ''replace''"
| "op_as_str Append = ''append''"
| "op_as_str Prepend = ''prepend''"

record patch_edit =
  edit_op :: patch_op
  anchor_line :: nat
  anchor_hash :: string
  edit_lines :: "string list"

record raw_patch_edit =
  raw_op :: string
  raw_anchor :: string
  raw_lines :: "string list"

record patch_outcome =
  new_text :: string
  new_base_sha256 :: string
  applied :: nat

record patch_limits =
  max_edits :: nat
  max_patch_bytes :: nat
  max_result_bytes :: nat

datatype anchored_patch_error =
    EmptyEdits
  | AnchorInvalid string
  | AnchorNotFound string
  | BaseMismatch string string
  | AnchorStale string "(string \<times> string) list" string
  | OverlappingEdits nat
  | TooManyEdits nat nat
  | PatchTooLarge nat nat
  | ResultTooLarge nat nat
  | LinePanic \<comment> \<open>an index out of range, which panics\<close>

definition line_hash :: "(string \<Rightarrow> string) \<Rightarrow> nat \<Rightarrow> string \<Rightarrow> string" where
  "line_hash sha256_hex n text = take ANCHOR_HASH_LEN (sha256_hex (nat_to_string n @ '':'' @ text))"

definition anchor_for :: "(string \<Rightarrow> string) \<Rightarrow> nat \<Rightarrow> string \<Rightarrow> string" where
  "anchor_for sha256_hex n text = nat_to_string n @ '':'' @ line_hash sha256_hex n text"

definition parse_anchor :: "string \<Rightarrow> (nat \<times> string) option" where
  "parse_anchor a =
     Option.bind (split_once_char (CHR '':'') a) (\<lambda>(line, digest).
     Option.bind (parse_unsigned U64_MAX line) (\<lambda>n.
     if n = 0 \<or> byte_len digest \<noteq> ANCHOR_HASH_LEN then None
     else if \<not> list_all is_ascii_hexdigit digest then None
     else Some (n, to_ascii_lowercase digest)))"

definition split_lines :: "string \<Rightarrow> string list" where
  "split_lines text =
     map (\<lambda>line. case strip_suffix [CHR 0x0D] line of Some l \<Rightarrow> l | None \<Rightarrow> line) (split_char (\<lambda>c. c = CHR 0x0A) text)"

definition annotate :: "(string \<Rightarrow> string) \<Rightarrow> string \<Rightarrow> anchored_line list" where
  "annotate sha256_hex text =
     map (\<lambda>(index, line). \<lparr>line_no = index + 1, hash = line_hash sha256_hex (index + 1) line, line_text = line\<rparr>)
       (List.enumerate 0 (split_lines text))"

definition read_window :: "(string \<Rightarrow> string) \<Rightarrow> string \<Rightarrow> nat \<Rightarrow> nat \<Rightarrow> string \<times> anchored_line list" where
  "read_window sha256_hex text offset limit =
     (sha256_hex text, take limit (drop (max offset 1 - 1) (annotate sha256_hex text)))"

section \<open>Patches\<close>

definition parse_edit :: "raw_patch_edit \<Rightarrow> anchored_patch_error + patch_edit" where
  "parse_edit item =
     and_then (ok_or (parse_op (raw_op item)) (AnchorInvalid (raw_anchor item))) (\<lambda>operation.
     and_then (ok_or (parse_anchor (raw_anchor item)) (AnchorInvalid (raw_anchor item))) (\<lambda>(n, digest).
     Inr \<lparr>edit_op = operation, anchor_line = n, anchor_hash = digest, edit_lines = raw_lines item\<rparr>))"

definition parse_edits :: "raw_patch_edit list \<Rightarrow> anchored_patch_error + patch_edit list" where
  "parse_edits raw = (if raw = [] then Inl EmptyEdits else collect_results (map parse_edit raw))"

definition payload_bytes :: "patch_edit list \<Rightarrow> nat" where
  "payload_bytes edits = sum_list (map (\<lambda>edit. sum_list (map byte_len (edit_lines edit))) edits)"

definition check_patch_limits :: "patch_edit list \<Rightarrow> patch_limits \<Rightarrow> anchored_patch_error + unit" where
  "check_patch_limits edits limits =
     (if max_edits limits < length edits then Inl (TooManyEdits (length edits) (max_edits limits))
      else if max_patch_bytes limits < payload_bytes edits
      then Inl (PatchTooLarge (payload_bytes edits) (max_patch_bytes limits))
      else Inr ())"

definition edit_anchor :: "patch_edit \<Rightarrow> string" where
  "edit_anchor edit = nat_to_string (anchor_line edit) @ '':'' @ anchor_hash edit"

fun check_anchors ::
    "(nat \<rightharpoonup> anchored_line) \<Rightarrow> string \<Rightarrow> nat list \<Rightarrow> patch_edit list \<Rightarrow> anchored_patch_error + unit" where
  \<comment> \<open>the third argument holds the lines of \<open>replace_seen\<close>\<close>
  "check_anchors by_line actual_base seen [] = Inr ()"
| "check_anchors by_line actual_base seen (edit # edits) =
     (case by_line (anchor_line edit) of
        None \<Rightarrow> Inl (AnchorNotFound (edit_anchor edit))
      | Some line \<Rightarrow>
          if hash line \<noteq> anchor_hash edit
          then Inl (AnchorStale (edit_anchor edit) [(edit_anchor edit, anchor line)] actual_base)
          else if edit_op edit = Replace \<and> anchor_line edit \<in> set seen
          then Inl (OverlappingEdits (anchor_line edit))
          else check_anchors by_line actual_base
                 (if edit_op edit = Replace then anchor_line edit # seen else seen) edits)"

fun op_order :: "patch_op \<Rightarrow> nat" where
  "op_order Append = 0"
| "op_order Replace = 1"
| "op_order Prepend = 2"

definition edit_key :: "patch_edit \<Rightarrow> int \<times> nat" where
  "edit_key edit = (- int (anchor_line edit), op_order (edit_op edit))"

fun insert_lines :: "nat \<Rightarrow> string list \<Rightarrow> string list \<Rightarrow> string list option" where
  "insert_lines index [] text = Some text"
| "insert_lines index (line # lines) text =
     (if index \<le> length text then insert_lines (Suc index) lines (take index text @ line # drop index text) else None)"

definition apply_edit :: "patch_edit \<Rightarrow> string list \<Rightarrow> string list option" where
  "apply_edit edit text =
     (let index = anchor_line edit - 1
      in case edit_op edit of
           Replace \<Rightarrow>
             if length text \<le> index then None
             else (case edit_lines edit of
                     [] \<Rightarrow> Some (take index text @ drop (Suc index) text)
                   | [line] \<Rightarrow> Some (text[index := line])
                   | lines \<Rightarrow> Some (take index text @ lines @ drop (Suc index) text))
         | Append \<Rightarrow> insert_lines (index + 1) (edit_lines edit) text
         | Prepend \<Rightarrow> insert_lines index (edit_lines edit) text)"

fun apply_edits :: "patch_edit list \<Rightarrow> string list \<Rightarrow> string list option" where
  "apply_edits [] text = Some text"
| "apply_edits (edit # edits) text = Option.bind (apply_edit edit text) (apply_edits edits)"

definition uniform_crlf :: "string \<Rightarrow> bool" where
  "uniform_crlf text \<longleftrightarrow>
     CHR 0x0D \<in> set text \<and> CHR 0x0A \<in> set text
     \<and> list_all (\<lambda>index.
          if text ! index = CHR 0x0A then 0 < index \<and> text ! (index - 1) = CHR 0x0D
          else if text ! index = CHR 0x0D then index + 1 < length text \<and> text ! (index + 1) = CHR 0x0A
          else True) [0..<length text]"

definition join_lines :: "string \<Rightarrow> string list \<Rightarrow> string" where
  "join_lines base_text lines =
     (if uniform_crlf base_text then join_with [CHR 0x0D, CHR 0x0A] lines else join_with [CHR 0x0A] lines)"

definition apply_anchored_patch ::
    "(string \<Rightarrow> string) \<Rightarrow> string \<Rightarrow> string option \<Rightarrow> patch_edit list \<Rightarrow> patch_limits \<Rightarrow> anchored_patch_error + patch_outcome" where
  "apply_anchored_patch sha256_hex base_text expected_base edits limits =
     (if edits = [] then Inl EmptyEdits
      else
        and_then (check_patch_limits edits limits) (\<lambda>_.
        let actual_base = sha256_hex base_text
        in and_then (case expected_base of
                       Some expected \<Rightarrow> ensure (to_ascii_lowercase expected = actual_base) (BaseMismatch expected actual_base)
                     | None \<Rightarrow> Inr ()) (\<lambda>_.
           let snapshot = annotate sha256_hex base_text;
               by_line = map_of (map (\<lambda>line. (line_no line, line)) snapshot)
           in and_then (check_anchors by_line actual_base [] edits) (\<lambda>_.
              and_then (ok_or (apply_edits (sort_key edit_key edits) (map line_text snapshot)) LinePanic) (\<lambda>lines.
              let text = join_lines base_text lines
              in if max_result_bytes limits < byte_len text
                 then Inl (ResultTooLarge (byte_len text) (max_result_bytes limits))
                 else Inr \<lparr>new_text = text, new_base_sha256 = sha256_hex text, applied = length edits\<rparr>)))))"

section \<open>Reference\<close>

definition edits_at :: "patch_op \<Rightarrow> nat \<Rightarrow> patch_edit list \<Rightarrow> patch_edit list" where
  "edits_at operation n edits = filter (\<lambda>edit. anchor_line edit = n \<and> edit_op edit = operation) edits"

definition inserted :: "patch_op \<Rightarrow> nat \<Rightarrow> patch_edit list \<Rightarrow> string list" where
  "inserted operation n edits = concat (map edit_lines (rev (edits_at operation n edits)))"

definition expand :: "patch_edit list \<Rightarrow> nat \<Rightarrow> string \<Rightarrow> string list" where
  "expand edits n text =
     inserted Prepend n edits
     @ (case edits_at Replace n edits of [] \<Rightarrow> [text] | edit # _ \<Rightarrow> edit_lines edit)
     @ inserted Append n edits"

definition patched :: "patch_edit list \<Rightarrow> string list \<Rightarrow> string list" where
  "patched edits lines = concat (map (\<lambda>(index, line). expand edits (index + 1) line) (List.enumerate 0 lines))"

section \<open>The order of application\<close>

lemma sort_key_groups:
  assumes "sorted_wrt (<) ks" "\<forall>x\<in>set xs. f x \<in> set ks"
  shows "sort_key f xs = concat (map (\<lambda>k. filter (\<lambda>x. f x = k) xs) ks)"
proof (rule properties_for_sort_key)
  have d: "distinct ks" using assms(1) by (simp add: strict_sorted_iff)
  have one: "filter (\<lambda>x. f x = c) (concat (map (\<lambda>k. filter (\<lambda>x. f x = k) xs) js))
      = (if c \<in> set js then filter (\<lambda>x. f x = c) xs else [])" if "distinct js" for c js
    using that
  proof (induction js)
    case (Cons j js)
    have "filter (\<lambda>x. f x = c) (filter (\<lambda>x. f x = j) xs) = (if c = j then filter (\<lambda>x. f x = c) xs else [])"
      by (auto simp: filter_empty_conv)
    then show ?case using Cons by auto
  qed simp
  show "filter (\<lambda>x. f k = f x) (concat (map (\<lambda>k. filter (\<lambda>x. f x = k) xs) ks)) = filter (\<lambda>x. f k = f x) xs"
    if "k \<in> set (concat (map (\<lambda>k. filter (\<lambda>x. f x = k) xs) ks))" for k
    using one [OF d, of "f k"] that by (auto simp: eq_commute)
  show "mset (concat (map (\<lambda>k. filter (\<lambda>x. f x = k) xs) ks)) = mset xs"
  proof (rule multiset_eqI)
    fix x
    have c: "count (mset ys) x = length (filter (\<lambda>y. x = y) (filter (\<lambda>y. f y = f x) ys))" for ys :: "'b list"
      by (induction ys) auto
    have "filter (\<lambda>y. x = y) (filter (\<lambda>y. f y = f x) (concat (map (\<lambda>k. filter (\<lambda>x. f x = k) xs) ks)))
        = filter (\<lambda>y. x = y) (filter (\<lambda>y. f y = f x) xs)"
      unfolding one [OF d, of "f x"] using assms(2) by (auto intro!: filter_False [symmetric])
    then show "count (mset (concat (map (\<lambda>k. filter (\<lambda>x. f x = k) xs) ks))) x = count (mset xs) x"
      unfolding c by simp
  qed
  show "sorted (map f (concat (map (\<lambda>k. filter (\<lambda>x. f x = k) xs) ks)))"
    using assms(1)
  proof (induction ks)
    case (Cons k ks)
    then show ?case by (auto simp: sorted_append order_less_imp_le intro!: sorted_wrt_mono_rel [OF _ sorted_wrt_true])
  qed simp
qed

definition line_group :: "patch_edit list \<Rightarrow> nat \<Rightarrow> patch_edit list" where
  "line_group edits n = edits_at Append n edits @ edits_at Replace n edits @ edits_at Prepend n edits"

definition line_keys :: "nat \<Rightarrow> (int \<times> nat) list" where
  "line_keys m = concat (map (\<lambda>n. map (Pair (- int n)) [0, 1, 2]) (rev [1..<Suc m]))"

lemma line_keys_Suc: "line_keys (Suc m) = map (Pair (- int (Suc m))) [0, 1, 2] @ line_keys m"
  by (simp add: line_keys_def)

lemma line_keys_above: "k \<in> set (line_keys m) \<Longrightarrow> - int m \<le> fst k"
  by (auto simp: line_keys_def)

lemma line_keys_sorted: "sorted_wrt (<) (line_keys m)"
proof (induction m)
  case (Suc m)
  have "(- int (Suc m), i) < k" if "k \<in> set (line_keys m)" for i k
    using line_keys_above [OF that] by (simp add: less_prod_def)
  then show ?case using Suc unfolding line_keys_Suc by (auto simp: sorted_wrt_append less_prod_def)
qed (simp add: line_keys_def)

lemma edit_key_at:
  "filter (\<lambda>edit. edit_key edit = (- int n, op_order operation)) edits = edits_at operation n edits"
proof -
  have "op_order a = op_order b \<longleftrightarrow> a = b" for a b by (cases a; cases b) simp_all
  then show ?thesis by (auto simp: edits_at_def edit_key_def intro!: filter_cong)
qed

lemma sort_edits:
  assumes "\<forall>edit\<in>set edits. 1 \<le> anchor_line edit \<and> anchor_line edit \<le> m"
  shows "sort_key edit_key edits = concat (map (line_group edits) (rev [1..<Suc m]))"
proof -
  have "op_order operation \<in> {0, 1, 2}" for operation by (cases operation) simp_all
  then have "edit_key edit \<in> set (line_keys m)" if "edit \<in> set edits" for edit
    using assms that by (force simp: line_keys_def edit_key_def)
  then have "sort_key edit_key edits = concat (map (\<lambda>k. filter (\<lambda>edit. edit_key edit = k) edits) (line_keys m))"
    by (intro sort_key_groups [OF line_keys_sorted] ballI)
  also have "\<dots> = concat (map (line_group edits) (rev [1..<Suc m]))"
  proof (induction m)
    case (Suc m)
    then show ?case
      using edit_key_at [of "Suc m" Append edits] edit_key_at [of "Suc m" Replace edits] edit_key_at [of "Suc m" Prepend edits]
      by (simp add: line_keys_Suc line_group_def)
  qed (simp add: line_keys_def)
  finally show ?thesis .
qed

section \<open>Applying the edits of one line\<close>

lemma apply_edits_append: "apply_edits (es @ fs) xs = Option.bind (apply_edits es xs) (apply_edits fs)"
proof (induction es arbitrary: xs)
  case (Cons e es)
  then show ?case by (cases "apply_edit e xs") simp_all
qed simp

lemma insert_lines_at: "insert_lines (length pre) lines (pre @ rest) = Some (pre @ lines @ rest)"
proof (induction lines arbitrary: pre)
  case (Cons line lines)
  then show ?case using Cons.IH [of "pre @ [line]"] by simp
qed simp

lemma apply_insert:
  "edit_op edit = Append \<Longrightarrow> anchor_line edit = length pre \<Longrightarrow> pre \<noteq> [] \<Longrightarrow>
   apply_edit edit (pre @ rest) = Some (pre @ edit_lines edit @ rest)"
  "edit_op edit = Prepend \<Longrightarrow> anchor_line edit = Suc (length pre) \<Longrightarrow>
   apply_edit edit (pre @ rest) = Some (pre @ edit_lines edit @ rest)"
  unfolding apply_edit_def Let_def using insert_lines_at [of pre "edit_lines edit" rest] by simp_all

lemma apply_appends:
  assumes "\<forall>edit\<in>set es. anchor_line edit = Suc (length pre) \<and> edit_op edit = Append"
  shows "apply_edits es (pre @ text # rest) = Some (pre @ text # concat (map edit_lines (rev es)) @ rest)"
  using assms
proof (induction es arbitrary: rest)
  case (Cons e es)
  have "apply_edit e (pre @ text # rest) = Some (pre @ text # edit_lines e @ rest)"
    using apply_insert(1) [of e "pre @ [text]" rest] Cons.prems by simp
  moreover have "\<forall>edit\<in>set es. anchor_line edit = Suc (length pre) \<and> edit_op edit = Append" using Cons.prems by simp
  ultimately show ?case using Cons.IH [of "edit_lines e @ rest"] by (simp only: apply_edits.simps bind.bind_lunit) simp
qed simp

lemma apply_prepends:
  assumes "\<forall>edit\<in>set es. anchor_line edit = Suc (length pre) \<and> edit_op edit = Prepend"
  shows "apply_edits es (pre @ rest) = Some (pre @ concat (map edit_lines (rev es)) @ rest)"
  using assms
proof (induction es arbitrary: rest)
  case (Cons e es)
  have "apply_edit e (pre @ rest) = Some (pre @ edit_lines e @ rest)"
    using apply_insert(2) [of e pre rest] Cons.prems by simp
  moreover have "\<forall>edit\<in>set es. anchor_line edit = Suc (length pre) \<and> edit_op edit = Prepend" using Cons.prems by simp
  ultimately show ?case using Cons.IH [of "edit_lines e @ rest"] by (simp only: apply_edits.simps bind.bind_lunit) simp
qed simp

lemma apply_replace:
  assumes "anchor_line edit = Suc (length pre)" "edit_op edit = Replace"
  shows "apply_edit edit (pre @ text # rest) = Some (pre @ edit_lines edit @ rest)"
  using assms by (auto simp: apply_edit_def Let_def split: list.split)

lemma apply_line_group:
  assumes "length (edits_at Replace (Suc (length pre)) edits) \<le> 1"
  shows "apply_edits (line_group edits (Suc (length pre))) (pre @ text # rest)
    = Some (pre @ expand edits (Suc (length pre)) text @ rest)"
proof -
  let ?n = "Suc (length pre)"
  have at: "\<forall>edit\<in>set (edits_at operation ?n edits). anchor_line edit = ?n \<and> edit_op edit = operation" for operation
    by (auto simp: edits_at_def)
  have replace: "apply_edits (edits_at Replace ?n edits) (pre @ text # rest')
      = Some (pre @ (case edits_at Replace ?n edits of [] \<Rightarrow> [text] | edit # _ \<Rightarrow> edit_lines edit) @ rest')" for rest'
    using assms at [of Replace] apply_replace
    by (cases "edits_at Replace ?n edits") auto
  show ?thesis
    unfolding line_group_def apply_edits_append apply_appends [OF at] Option.bind.bind_lunit replace
      apply_prepends [OF at] expand_def inserted_def by simp
qed

lemma apply_sorted:
  assumes "\<forall>n. length (edits_at Replace n edits) \<le> 1"
  shows "m \<le> length texts \<Longrightarrow>
    apply_edits (concat (map (line_group edits) (rev [1..<Suc m]))) (take m texts @ rest)
      = Some (patched edits (take m texts) @ rest)"
proof (induction m arbitrary: rest)
  case (Suc m)
  then have split: "take (Suc m) texts = take m texts @ [texts ! m]" by (simp add: take_Suc_conv_app_nth)
  have len: "length (take m texts) = m" using Suc.prems by simp
  have "apply_edits (line_group edits (Suc m)) (take m texts @ texts ! m # rest)
      = Some (take m texts @ expand edits (Suc m) (texts ! m) @ rest)"
    using apply_line_group [of "take m texts" edits "texts ! m" rest] assms len by simp
  then have "apply_edits (concat (map (line_group edits) (rev [1..<Suc (Suc m)]))) (take (Suc m) texts @ rest)
      = Some (patched edits (take m texts) @ expand edits (Suc m) (texts ! m) @ rest)"
    using Suc.IH [of "expand edits (Suc m) (texts ! m) @ rest"] Suc.prems by (simp add: split apply_edits_append)
  moreover have "patched edits (take (Suc m) texts) = patched edits (take m texts) @ expand edits (Suc m) (texts ! m)"
    using len by (simp add: split patched_def enumerate_append_eq)
  ultimately show ?case by simp
qed (simp add: patched_def)

section \<open>Checked anchors\<close>

lemma by_line_annotate:
  "map_of (map (\<lambda>line. (line_no line, line)) (annotate sha256_hex text)) n =
     (if 1 \<le> n \<and> n \<le> length (split_lines text)
      then Some \<lparr>line_no = n, hash = line_hash sha256_hex n (split_lines text ! (n - 1)), line_text = split_lines text ! (n - 1)\<rparr>
      else None)"
proof -
  define f where "f = (\<lambda>(index, line). \<lparr>line_no = index + 1, hash = line_hash sha256_hex (index + 1) line, line_text = line\<rparr>)"
  have "map_of (map (\<lambda>line. (line_no line, line)) (map f (List.enumerate k lines))) n =
      (if k < n \<and> n \<le> k + length lines then Some (f (n - 1, lines ! (n - 1 - k))) else None)" for k and lines :: "string list"
  proof (induction lines arbitrary: k)
    case (Cons line lines)
    show ?case
    proof (cases "n = Suc k")
      case False
      then have "k < n \<Longrightarrow> n - Suc k = Suc (n - Suc (Suc k))" by simp
      then show ?thesis using False Cons.IH [of "Suc k"] by (auto simp: f_def)
    qed (simp add: f_def)
  qed simp
  from this [of 0 "split_lines text"] show ?thesis
    by (auto simp: annotate_def f_def Suc_le_eq)
qed

lemma check_anchors_iff:
  "check_anchors by_line b seen edits = Inr () \<longleftrightarrow>
     (\<forall>edit\<in>set edits. \<exists>line. by_line (anchor_line edit) = Some line \<and> hash line = anchor_hash edit)
     \<and> distinct (map anchor_line (filter (\<lambda>edit. edit_op edit = Replace) edits))
     \<and> set (map anchor_line (filter (\<lambda>edit. edit_op edit = Replace) edits)) \<inter> set seen = {}"
proof (induction edits arbitrary: seen)
  case (Cons edit edits)
  show ?case
  proof (cases "by_line (anchor_line edit)")
    case (Some line)
    then show ?thesis using Cons.IH by (cases "edit_op edit = Replace") auto
  qed simp
qed simp

lemma one_replace:
  assumes "distinct (map anchor_line (filter (\<lambda>edit. edit_op edit = Replace) edits))"
  shows "length (edits_at Replace n edits) \<le> 1"
proof -
  have "edits_at Replace n edits = filter (\<lambda>edit. anchor_line edit = n) (filter (\<lambda>edit. edit_op edit = Replace) edits)"
    by (simp add: edits_at_def conj_commute)
  moreover have "length (filter (\<lambda>x. f x = n) xs) \<le> 1" if "distinct (map f xs)" for f :: "patch_edit \<Rightarrow> nat" and xs
    using that by (induction xs) (auto simp: filter_empty_conv image_iff)
  from this [OF assms] calculation show ?thesis by (simp only:)
qed

lemma annotate_texts: "map line_text (annotate sha256_hex text) = split_lines text"
  by (rule nth_equalityI) (simp_all add: annotate_def nth_enumerate_eq)

definition anchors_fresh :: "(string \<Rightarrow> string) \<Rightarrow> string \<Rightarrow> patch_edit list \<Rightarrow> bool" where
  "anchors_fresh sha256_hex text edits \<longleftrightarrow>
     (\<forall>edit\<in>set edits. 1 \<le> anchor_line edit \<and> anchor_line edit \<le> length (split_lines text)
        \<and> anchor_hash edit = line_hash sha256_hex (anchor_line edit) (split_lines text ! (anchor_line edit - 1)))
     \<and> distinct (map anchor_line (filter (\<lambda>edit. edit_op edit = Replace) edits))"

lemma check_snapshot_iff:
  "check_anchors (map_of (map (\<lambda>line. (line_no line, line)) (annotate sha256_hex text))) b [] edits = Inr ()
     \<longleftrightarrow> anchors_fresh sha256_hex text edits"
  unfolding check_anchors_iff anchors_fresh_def by_line_annotate by (auto split: if_splits)

lemma apply_fresh:
  assumes "anchors_fresh sha256_hex text edits"
  shows "apply_edits (sort_key edit_key edits) (map line_text (annotate sha256_hex text)) = Some (patched edits (split_lines text))"
proof -
  have sorted: "sort_key edit_key edits = concat (map (line_group edits) (rev [1..<Suc (length (split_lines text))]))"
    using assms by (intro sort_edits) (simp add: anchors_fresh_def)
  have "\<forall>n. length (edits_at Replace n edits) \<le> 1"
    using assms one_replace by (simp add: anchors_fresh_def)
  from apply_sorted [OF this order_refl, of "split_lines text" "[]"] show ?thesis
    unfolding sorted annotate_texts by (simp del: upt_Suc)
qed

lemma check_patch_limits_iff:
  "check_patch_limits edits limits = Inr () \<longleftrightarrow> length edits \<le> max_edits limits \<and> payload_bytes edits \<le> max_patch_bytes limits"
  by (auto simp: check_patch_limits_def)

lemma apply_anchored_patch_fresh:
  "apply_anchored_patch sha256_hex source expected_base edits limits =
     (if edits = [] then Inl EmptyEdits
      else and_then (check_patch_limits edits limits) (\<lambda>_.
           and_then (case expected_base of
                       Some expected \<Rightarrow> ensure (to_ascii_lowercase expected = sha256_hex source)
                         (BaseMismatch expected (sha256_hex source))
                     | None \<Rightarrow> Inr ()) (\<lambda>_.
           and_then (check_anchors (map_of (map (\<lambda>line. (line_no line, line)) (annotate sha256_hex source)))
                       (sha256_hex source) [] edits) (\<lambda>_.
           let result = join_lines source (patched edits (split_lines source))
           in if max_result_bytes limits < byte_len result
              then Inl (ResultTooLarge (byte_len result) (max_result_bytes limits))
              else Inr \<lparr>new_text = result, new_base_sha256 = sha256_hex result, applied = length edits\<rparr>))))"
proof -
  have "and_then (check_anchors (map_of (map (\<lambda>line. (line_no line, line)) (annotate sha256_hex source))) b [] edits) (\<lambda>_.
      and_then (ok_or (apply_edits (sort_key edit_key edits) (map line_text (annotate sha256_hex source))) LinePanic) k)
    = and_then (check_anchors (map_of (map (\<lambda>line. (line_no line, line)) (annotate sha256_hex source))) b [] edits) (\<lambda>_.
      k (patched edits (split_lines source)))" for b and k :: "string list \<Rightarrow> anchored_patch_error + patch_outcome"
  proof (cases "check_anchors (map_of (map (\<lambda>line. (line_no line, line)) (annotate sha256_hex source))) b [] edits")
    case (Inr u)
    then have "anchors_fresh sha256_hex source edits" using check_snapshot_iff by (metis old.unit.exhaust)
    then show ?thesis by (simp add: Inr apply_fresh)
  qed simp
  then show ?thesis unfolding apply_anchored_patch_def Let_def by simp
qed

lemma ex_unit: "(\<exists>u::unit. P u) \<longleftrightarrow> P ()"
  by (metis old.unit.exhaust)

text \<open>C7: A patch is applied exactly when it has edits within the limits, the file is the one it was made
  for, every anchor names an existing line with the digest of its current text, no line is replaced
  twice and the result fits. Then every line of the result is what the edits of that line say, however
  many edits change the lines above and below it.\<close>

theorem patch_exact:
  "apply_anchored_patch sha256_hex source expected_base edits limits = Inr outcome \<longleftrightarrow>
     edits \<noteq> [] \<and> length edits \<le> max_edits limits \<and> payload_bytes edits \<le> max_patch_bytes limits
     \<and> (\<forall>expected. expected_base = Some expected \<longrightarrow> to_ascii_lowercase expected = sha256_hex source)
     \<and> (\<forall>edit\<in>set edits. 1 \<le> anchor_line edit \<and> anchor_line edit \<le> length (split_lines source)
          \<and> anchor_hash edit = line_hash sha256_hex (anchor_line edit) (split_lines source ! (anchor_line edit - 1)))
     \<and> distinct (map anchor_line (filter (\<lambda>edit. edit_op edit = Replace) edits))
     \<and> byte_len (join_lines source (patched edits (split_lines source))) \<le> max_result_bytes limits
     \<and> outcome = \<lparr>new_text = join_lines source (patched edits (split_lines source)),
          new_base_sha256 = sha256_hex (join_lines source (patched edits (split_lines source))), applied = length edits\<rparr>"
proof (cases "edits = []")
  case False
  have base: "(case expected_base of
        Some expected \<Rightarrow> ensure (to_ascii_lowercase expected = sha256_hex source) (BaseMismatch expected (sha256_hex source))
      | None \<Rightarrow> Inr ()) = Inr ()
    \<longleftrightarrow> (\<forall>expected. expected_base = Some expected \<longrightarrow> to_ascii_lowercase expected = sha256_hex source)"
    by (cases expected_base) (simp_all add: ensure_Inr_iff)
  show ?thesis
    using False
    unfolding apply_anchored_patch_fresh if_not_P [OF False] and_then_Inr_iff ex_unit base check_patch_limits_iff
      check_snapshot_iff anchors_fresh_def Let_def
    by (auto split: if_splits)
qed (simp add: apply_anchored_patch_fresh)

definition sample_digest :: "string \<Rightarrow> string" where
  "sample_digest s = replicate 64 (CHR ''0'')"

definition sample_edit :: patch_edit where
  "sample_edit = \<lparr>edit_op = Replace, anchor_line = 1, anchor_hash = replicate 8 (CHR ''0''), edit_lines = [''b'']\<rparr>"

theorem patch_exact_witness:
  "apply_anchored_patch sample_digest ''a'' None [sample_edit]
     \<lparr>max_edits = 1, max_patch_bytes = 10, max_result_bytes = 10\<rparr>
   = Inr \<lparr>new_text = ''b'', new_base_sha256 = replicate 64 (CHR ''0''), applied = 1\<rparr>"
  unfolding patch_exact
  by (simp add: sample_edit_def sample_digest_def split_lines_def strip_suffix_def line_hash_def ANCHOR_HASH_LEN_def
      payload_bytes_def patched_def expand_def edits_at_def inserted_def join_lines_def uniform_crlf_def byte_len_def utf8_len_def
      numeral_eq_Suc)

lemma patch_never_panics: "apply_anchored_patch sha256_hex source expected_base edits limits \<noteq> Inl LinePanic"
proof -
  have "check_anchors by_line b seen edits \<noteq> Inl LinePanic" for by_line b seen
    by (induction by_line b seen edits rule: check_anchors.induct) (auto split: option.splits)
  then show ?thesis
    by (auto simp: apply_anchored_patch_fresh and_then_Inl_iff check_patch_limits_def ensure_def Let_def split: option.splits if_splits)
qed

definition lower_hex :: "char \<Rightarrow> bool" where
  "lower_hex c \<longleftrightarrow> is_ascii_hexdigit c \<and> to_ascii_lowercase_char c = c \<and> utf8_len c = 1"

lemma lower_hex_string:
  "list_all lower_hex h \<Longrightarrow> byte_len h = length h \<and> to_ascii_lowercase h = h \<and> list_all is_ascii_hexdigit h"
  by (induction h) (auto simp: lower_hex_def byte_len_def to_ascii_lowercase_def)

lemma parse_anchor_for:
  assumes "length (sha256_hex (nat_to_string n @ '':'' @ line)) = 64" "list_all lower_hex (sha256_hex (nat_to_string n @ '':'' @ line))"
    "1 \<le> n" "n \<le> U64_MAX"
  shows "parse_anchor (anchor_for sha256_hex n line) = Some (n, line_hash sha256_hex n line)"
proof -
  let ?h = "line_hash sha256_hex n line"
  have h: "list_all lower_hex ?h" "length ?h = ANCHOR_HASH_LEN"
    using assms(1,2) by (auto simp: line_hash_def ANCHOR_HASH_LEN_def list_all_iff dest: in_set_takeD)
  note lower_hex_string [OF h(1)]
  moreover have "CHR '':'' \<notin> set (nat_to_string n)"
    using nat_to_string_digits [of n] by (auto simp: list_all_iff is_ascii_digit_def)
  then have "split_once_char (CHR '':'') (anchor_for sha256_hex n line) = Some (nat_to_string n, ?h)"
    by (simp add: split_once_char_Some_iff anchor_for_def)
  ultimately show ?thesis
    using h(2) assms(3) parse_nat_to_string [OF assms(4)] by (simp add: parse_anchor_def)
qed

section \<open>Line endings\<close>

definition paired :: "string \<Rightarrow> bool" where
  "paired s \<longleftrightarrow> (\<forall>a b. s = a @ CHR 0x0A # b \<longrightarrow> a \<noteq> [] \<and> last a = CHR 0x0D)
     \<and> (\<forall>a b. s = a @ CHR 0x0D # b \<longrightarrow> b \<noteq> [] \<and> hd b = CHR 0x0A)"

lemma uniform_crlf_paired: "uniform_crlf s \<Longrightarrow> paired s"
proof -
  assume u: "uniform_crlf s"
  have at: "if s ! i = CHR 0x0A then 0 < i \<and> s ! (i - 1) = CHR 0x0D
      else if s ! i = CHR 0x0D then i + 1 < length s \<and> s ! (i + 1) = CHR 0x0A else True" if "i < length s" for i
  proof -
    have "i \<in> set [0..<length s]" using that by simp
    then show ?thesis using u unfolding uniform_crlf_def list_all_iff by blast
  qed
  show ?thesis unfolding paired_def
  proof (intro conjI allI impI)
    fix a b
    assume s: "s = a @ CHR 0x0A # b"
    have "0 < length a \<and> s ! (length a - 1) = CHR 0x0D" using at [of "length a"] by (simp add: s)
    then show "a \<noteq> []" "last a = CHR 0x0D" by (auto simp: s nth_append last_conv_nth)
  next
    fix a b
    assume s: "s = a @ CHR 0x0D # b"
    have "length a + 1 < length s \<and> s ! (length a + 1) = CHR 0x0A" using at [of "length a"] by (simp add: s)
    then show "b \<noteq> []" "hd b = CHR 0x0A" by (auto simp: s nth_append hd_conv_nth)
  qed
qed

lemma paired_tail: "paired (a @ CHR 0x0A # b) \<Longrightarrow> paired b"
proof -
  assume p: "paired (a @ CHR 0x0A # b)"
  show ?thesis unfolding paired_def
  proof (intro conjI allI impI)
    fix c d
    assume b: "b = c @ CHR 0x0A # d"
    have "a @ CHR 0x0A # b = (a @ CHR 0x0A # c) @ CHR 0x0A # d" by (simp add: b)
    then have "last (a @ CHR 0x0A # c) = CHR 0x0D" using p unfolding paired_def by blast
    then show "c \<noteq> []" "last c = CHR 0x0D" by (auto split: if_splits)
  next
    fix c d
    assume b: "b = c @ CHR 0x0D # d"
    have "a @ CHR 0x0A # b = (a @ CHR 0x0A # c) @ CHR 0x0D # d" by (simp add: b)
    then show "d \<noteq> []" "hd d = CHR 0x0A" using p unfolding paired_def by blast+
  qed
qed

lemma join_with_Cons: "ws \<noteq> [] \<Longrightarrow> join_with sep (w # ws) = w @ sep @ join_with sep ws"
  by (cases ws) simp_all

lemma join_split_crlf: "paired s \<Longrightarrow> join_with [CHR 0x0D, CHR 0x0A] (split_lines s) = s"
proof (induction s rule: measure_induct_rule [of length])
  case (less s)
  show ?case
  proof (cases "CHR 0x0A \<in> set s")
    case False
    have "CHR 0x0D \<notin> set s"
    proof
      assume "CHR 0x0D \<in> set s"
      then obtain a b where "s = a @ CHR 0x0D # b" by (metis split_list)
      then show False using less.prems False unfolding paired_def by (metis hd_in_set in_set_conv_decomp list.set_intros(2) Un_iff set_append)
    qed
    then have "strip_suffix [CHR 0x0D] s = None" by (cases "strip_suffix [CHR 0x0D] s") (auto simp: strip_suffix_Some_iff)
    moreover have "split_char (\<lambda>c. c = CHR 0x0A) s = [s]" using False by (intro split_char_id) auto
    ultimately show ?thesis by (simp add: split_lines_def)
  next
    case True
    then obtain a b where s: "s = a @ CHR 0x0A # b" "CHR 0x0A \<notin> set a" by (metis split_list_first)
    then obtain c where c: "a = c @ [CHR 0x0D]" using less.prems unfolding paired_def by (metis append_butlast_last_id)
    have strip: "strip_suffix [CHR 0x0D] a = Some c" by (simp add: strip_suffix_Some_iff c)
    have "split_lines s = c # split_lines b"
      using s(2) strip unfolding split_lines_def s(1) by (subst split_char_append) auto
    moreover have "split_lines b \<noteq> []" by (simp add: split_lines_def)
    ultimately show ?thesis
      using less.IH [of b] paired_tail [of a b] less.prems by (simp add: s(1) c join_with_Cons)
  qed
qed

lemma set_split_char: "w \<in> set (split_char P s) \<Longrightarrow> set w \<subseteq> set s"
proof (induction s arbitrary: w)
  case (Cons c s)
  obtain v vs where v: "split_char P s = v # vs" by (meson list.exhaust split_char_not_Nil)
  with Cons.prems Cons.IH [of w] Cons.IH [of v] show ?case by (cases "P c") auto
qed simp

lemma join_split_lf: "CHR 0x0D \<notin> set s \<Longrightarrow> split_lines s = split_char (\<lambda>c. c = CHR 0x0A) s"
proof -
  assume cr: "CHR 0x0D \<notin> set s"
  have "strip_suffix [CHR 0x0D] w = None" if w: "w \<in> set (split_char (\<lambda>c. c = CHR 0x0A) s)" for w
  proof (cases "strip_suffix [CHR 0x0D] w")
    case (Some v)
    then have "CHR 0x0D \<in> set w" by (simp add: strip_suffix_Some_iff)
    then show ?thesis using set_split_char [OF w] cr by (simp add: subsetD)
  qed
  then show ?thesis unfolding split_lines_def by (intro map_idI) simp
qed

text \<open>C35: Splitting a file into lines and joining them again gives back the file when its line endings are
  uniform, so a patch never rewrites the endings of lines it does not touch.\<close>

theorem lines_roundtrip:
  assumes "CHR 0x0D \<notin> set source \<or> uniform_crlf source"
  shows "join_lines source (split_lines source) = source"
proof (cases "uniform_crlf source")
  case True
  then show ?thesis by (simp add: join_lines_def join_split_crlf uniform_crlf_paired)
next
  case False
  then show ?thesis using assms by (simp add: join_lines_def join_split_lf join_split_char)
qed

theorem lines_roundtrip_witness:
  "join_lines (''a'' @ [CHR 0x0D, CHR 0x0A] @ ''b'') (split_lines (''a'' @ [CHR 0x0D, CHR 0x0A] @ ''b''))
     = ''a'' @ [CHR 0x0D, CHR 0x0A] @ ''b''"
  by (rule lines_roundtrip) (simp add: uniform_crlf_def upt_conv_Cons)

end
