(* ===== verification/RunFrame.thy ===== *)
theory RunFrame
  imports RunInvariants
begin

text \<open>
  Three fields of the run state are bookkeeping of the journal: the last durable sequence number, the
  last sequence number of the observation stream and the identity of the run. No event handler looks at the
  sequence numbers, and only admissions, forks and the elapsed ledger look at the identity. So a state whose
  bookkeeping was overwritten, as the journal writer does when it opens a journal, follows the same events in
  the same way.
\<close>

section \<open>Overwriting the bookkeeping\<close>

named_theorems reframe

definition map_ok :: "('a \<Rightarrow> 'b) \<Rightarrow> 'e + 'a \<Rightarrow> 'e + 'b" where
  "map_ok f r = and_then r (\<lambda>x. Inr (f x))"

definition reframe :: "nat \<Rightarrow> nat \<Rightarrow> string option \<Rightarrow> run_state \<Rightarrow> run_state" where
  "reframe q a r st = st\<lparr>last_seq := q, audit_seq := a, run_id := r\<rparr>"

lemma map_ok_simps [simp]: "map_ok f (Inl e) = Inl e" "map_ok f (Inr x) = Inr (f x)"
  by (simp_all add: map_ok_def)

lemma map_ok_and_then [simp]: "map_ok f (and_then r g) = and_then r (\<lambda>x. map_ok f (g x))"
  by (cases r) simp_all

lemma and_then_map_ok [simp]: "and_then (map_ok f r) g = and_then r (\<lambda>x. g (f x))"
  by (cases r) simp_all

lemma map_ok_Inr_iff: "map_ok f r = Inr y \<longleftrightarrow> (\<exists>x. r = Inr x \<and> y = f x)"
  by (cases r) auto

lemma and_then_if: "and_then (if b then r else s) f = (if b then and_then r f else and_then s f)"
  by simp

lemma map_ok_if [reframe]: "map_ok f (if b then r else s) = (if b then map_ok f r else map_ok f s)"
  by simp

lemma map_ok_option [reframe]:
  "map_ok f (case v of None \<Rightarrow> r | Some x \<Rightarrow> g x) = (case v of None \<Rightarrow> map_ok f r | Some x \<Rightarrow> map_ok f (g x))"
  by (simp split: option.split)

lemma map_ok_prod [reframe]: "map_ok f (case p of (x, y) \<Rightarrow> h x y) = (case p of (x, y) \<Rightarrow> map_ok f (h x y))"
  by (simp split: prod.split)

lemma reframe_sel [simp]:
  "contract_sha256 (reframe q a r st) = contract_sha256 st" "package_sha256 (reframe q a r st) = package_sha256 st"
  "generator_path (reframe q a r st) = generator_path st" "generator_id (reframe q a r st) = generator_id st"
  "labels (reframe q a r st) = labels st" "run_inputs (reframe q a r st) = run_inputs st"
  "vars (reframe q a r st) = vars st" "nodes (reframe q a r st) = nodes st"
  "checkpoints (reframe q a r st) = checkpoints st" "unresolved_tasks (reframe q a r st) = unresolved_tasks st"
  "foreach_reports (reframe q a r st) = foreach_reports st" "removed_files (reframe q a r st) = removed_files st"
  "budget (reframe q a r st) = budget st" "resource_pins (reframe q a r st) = resource_pins st"
  "latest_file_pins (reframe q a r st) = latest_file_pins st"
  "node_executions (reframe q a r st) = node_executions st"
  "historical_file_pins (reframe q a r st) = historical_file_pins st" "pending (reframe q a r st) = pending st"
  "pending_seq (reframe q a r st) = pending_seq st"
  "pending_interactions (reframe q a r st) = pending_interactions st"
  "interaction_seqs (reframe q a r st) = interaction_seqs st" "terminal (reframe q a r st) = terminal st"
  "execution_started (reframe q a r st) = execution_started st" "finished_at (reframe q a r st) = finished_at st"
  "priority (reframe q a r st) = priority st" "parent_run_id (reframe q a r st) = parent_run_id st"
  "queued_at (reframe q a r st) = queued_at st" "operation_records (reframe q a r st) = operation_records st"
  "operation_attempts (reframe q a r st) = operation_attempts st" "answers (reframe q a r st) = answers st"
  "confirmations (reframe q a r st) = confirmations st" "cancel_requested (reframe q a r st) = cancel_requested st"
  "cancel_operations (reframe q a r st) = cancel_operations st" "mcp_pending (reframe q a r st) = mcp_pending st"
  "mcp_resumed (reframe q a r st) = mcp_resumed st" "hooks_settled (reframe q a r st) = hooks_settled st"
  by (simp_all add: reframe_def)

lemma reframe_bookkeeping [simp]:
  "last_seq (reframe q a r st) = q" "audit_seq (reframe q a r st) = a" "run_id (reframe q a r st) = r"
  "schema_version (reframe q a r st) = schema_version st"
  "run_id_update g (reframe q a r st) = reframe q a (g r) st"
  "last_seq_update h (reframe q a r st) = reframe (h q) a r st"
  "audit_seq_update h (reframe q a r st) = reframe q (h a) r st"
  "reframe q a r (reframe q' a' r' st) = reframe q a r st"
  "reframe q a r (st\<lparr>last_seq := q'\<rparr>) = reframe q a r st"
  "reframe q a r (st\<lparr>run_id := r'\<rparr>) = reframe q a r st"
  by (simp_all add: reframe_def)

lemma reframe_upd [reframe]:
  "contract_sha256_update g1 (reframe q a r st) = reframe q a r (contract_sha256_update g1 st)"
  "package_sha256_update g2 (reframe q a r st) = reframe q a r (package_sha256_update g2 st)"
  "generator_path_update g3 (reframe q a r st) = reframe q a r (generator_path_update g3 st)"
  "generator_id_update g4 (reframe q a r st) = reframe q a r (generator_id_update g4 st)"
  "labels_update g5 (reframe q a r st) = reframe q a r (labels_update g5 st)"
  "run_inputs_update g6 (reframe q a r st) = reframe q a r (run_inputs_update g6 st)"
  "vars_update g7 (reframe q a r st) = reframe q a r (vars_update g7 st)"
  "nodes_update g8 (reframe q a r st) = reframe q a r (nodes_update g8 st)"
  "checkpoints_update g9 (reframe q a r st) = reframe q a r (checkpoints_update g9 st)"
  "unresolved_tasks_update g10 (reframe q a r st) = reframe q a r (unresolved_tasks_update g10 st)"
  "foreach_reports_update g11 (reframe q a r st) = reframe q a r (foreach_reports_update g11 st)"
  "removed_files_update g12 (reframe q a r st) = reframe q a r (removed_files_update g12 st)"
  "budget_update g13 (reframe q a r st) = reframe q a r (budget_update g13 st)"
  "resource_pins_update g14 (reframe q a r st) = reframe q a r (resource_pins_update g14 st)"
  "latest_file_pins_update g15 (reframe q a r st) = reframe q a r (latest_file_pins_update g15 st)"
  "node_executions_update g16 (reframe q a r st) = reframe q a r (node_executions_update g16 st)"
  "historical_file_pins_update g17 (reframe q a r st) = reframe q a r (historical_file_pins_update g17 st)"
  "pending_update g18 (reframe q a r st) = reframe q a r (pending_update g18 st)"
  "pending_seq_update g19 (reframe q a r st) = reframe q a r (pending_seq_update g19 st)"
  "pending_interactions_update g20 (reframe q a r st) = reframe q a r (pending_interactions_update g20 st)"
  "interaction_seqs_update g21 (reframe q a r st) = reframe q a r (interaction_seqs_update g21 st)"
  "terminal_update g22 (reframe q a r st) = reframe q a r (terminal_update g22 st)"
  "execution_started_update g23 (reframe q a r st) = reframe q a r (execution_started_update g23 st)"
  "finished_at_update g24 (reframe q a r st) = reframe q a r (finished_at_update g24 st)"
  "priority_update g25 (reframe q a r st) = reframe q a r (priority_update g25 st)"
  "parent_run_id_update g26 (reframe q a r st) = reframe q a r (parent_run_id_update g26 st)"
  "queued_at_update g27 (reframe q a r st) = reframe q a r (queued_at_update g27 st)"
  "operation_records_update g28 (reframe q a r st) = reframe q a r (operation_records_update g28 st)"
  "operation_attempts_update g29 (reframe q a r st) = reframe q a r (operation_attempts_update g29 st)"
  "answers_update g30 (reframe q a r st) = reframe q a r (answers_update g30 st)"
  "confirmations_update g31 (reframe q a r st) = reframe q a r (confirmations_update g31 st)"
  "cancel_requested_update g32 (reframe q a r st) = reframe q a r (cancel_requested_update g32 st)"
  "cancel_operations_update g33 (reframe q a r st) = reframe q a r (cancel_operations_update g33 st)"
  "mcp_pending_update g34 (reframe q a r st) = reframe q a r (mcp_pending_update g34 st)"
  "mcp_resumed_update g35 (reframe q a r st) = reframe q a r (mcp_resumed_update g35 st)"
  "hooks_settled_update g36 (reframe q a r st) = reframe q a r (hooks_settled_update g36 st)"
  by (simp_all add: reframe_def)

lemma reframe_if [reframe]:
  "reframe q a r (if b then st else st') = (if b then reframe q a r st else reframe q a r st')"
  by simp

lemma project_interaction_reframe [reframe]:
  "project_interaction (reframe q a r st) = reframe q a r (project_interaction st)"
  by (simp add: project_interaction_def reframe split: list.split)

lemma retire_interaction_reframe [reframe]:
  "retire_interaction path (reframe q a r st) = reframe q a r (retire_interaction path st)"
  by (simp add: retire_interaction_def Let_def reframe split: option.split)

lemma interaction_owner_reframe [simp]:
  "interaction_owner event prompt (reframe q a r st) = interaction_owner event prompt st"
  by (simp add: interaction_owner_def)

lemma install_interaction_reframe [reframe]:
  "install_interaction cx event b (reframe q a r st) = map_ok (reframe q a r) (install_interaction cx event b st)"
  by (simp add: install_interaction_def Let_def reframe cong: option.case_cong if_cong)

lemma files_reframe [reframe]:
  "record_history pins (reframe q a r st) = reframe q a r (record_history pins st)"
  "settle_tasks path b (reframe q a r st) = reframe q a r (settle_tasks path b st)"
  "remove_file path (reframe q a r st) = reframe q a r (remove_file path st)"
  "restore_file path (reframe q a r st) = reframe q a r (restore_file path st)"
  by (simp_all add: record_history_def settle_tasks_def remove_file_def restore_file_def reframe)

lemma apply_workspace_file_pins_reframe [reframe]:
  "apply_workspace_file_pins pins (reframe q a r st) = reframe q a r (apply_workspace_file_pins pins st)"
  unfolding apply_workspace_file_pins_def by (induction pins arbitrary: st) (simp_all add: reframe)

lemma fold_files_reframe [reframe]:
  "fold remove_file ps (reframe q a r st) = reframe q a r (fold remove_file ps st)"
  "fold restore_file ps (reframe q a r st) = reframe q a r (fold restore_file ps st)"
  by (induction ps arbitrary: st) (simp_all add: reframe)

lemma record_reframe [reframe]:
  "record_node_execution path (reframe q a r st) = map_ok (reframe q a r) (record_node_execution path st)"
  "record_success event path pins (reframe q a r st) = map_ok (reframe q a r) (record_success event path pins st)"
  "record_failure event path status (reframe q a r st) = map_ok (reframe q a r) (record_failure event path status st)"
  by (simp_all add: record_node_execution_def record_success_def record_failure_def Let_def reframe cong: option.case_cong if_cong)

lemma apply_step_finished_reframe [reframe]:
  "apply_step_finished cx event (reframe q a r st) = map_ok (reframe q a r) (apply_step_finished cx event st)"
  by (simp add: apply_step_finished_def and_then_if Let_def reframe cong: if_cong)

section \<open>Handlers\<close>

lemma admission_reframe [reframe]:
  "admit_ledger mode (reframe q a r st) = map_ok (reframe q a r) (admit_ledger mode st)"
  "admit_inputs event (reframe q a r st) = reframe q a r (admit_inputs event st)"
  "admit_queue event (reframe q a r st) = reframe q a r (admit_queue event st)"
  "admit_labels event (reframe q a r st) = reframe q a r (admit_labels event st)"
  "admit_start event (reframe q a r st) = reframe q a r (admit_start event st)"
  by (simp_all add: admit_ledger_def admit_inputs_def admit_queue_def admit_labels_def admit_start_def reframe
      split: option.split)

lemma patch_reframe [reframe]:
  "patch_run_inputs event (reframe q a r st) = reframe q a r (patch_run_inputs event st)"
  "patch_outputs event (reframe q a r st) = reframe q a r (patch_outputs event st)"
  by (simp_all add: patch_run_inputs_def patch_outputs_def reframe split: option.split)

lemma report_iteration_reframe [reframe]:
  "report_iteration event cls (reframe q a r st) = map_ok (reframe q a r) (report_iteration event cls st)"
  by (simp add: report_iteration_def Let_def reframe cong: if_cong)

lemma record_response_reframe [reframe]:
  "record_response kind event nid (reframe q a r st) = map_ok (reframe q a r) (record_response kind event nid st)"
  by (simp add: record_response_def reframe cong: if_cong)

lemma drop_answered_reframe [reframe]:
  "drop_answered kind event (reframe q a r st) = reframe q a r (drop_answered kind event st)"
  by (simp add: drop_answered_def Let_def reframe split: option.split)

lemma idle_reframe:
  assumes "h \<in> {on_agent_checkpoint, on_resource, on_cancel_requested, on_mcp_input_pending, on_mcp_continuation_resumed}"
  shows "h cx kind event (reframe q a r st) = map_ok (reframe q a r) (h cx kind event st)"
  using assms
  by (elim insertE emptyE) (simp_all add: on_agent_checkpoint_def on_resource_def on_cancel_requested_def
      on_mcp_input_pending_def on_mcp_continuation_resumed_def reframe split: option.split)

lemma budget_reframe:
  assumes "h \<in> {on_step_started, on_budget_charged, on_llm_call, on_repair_attempt_started,
    on_regenerate_attempt_started}"
  shows "h cx kind event (reframe q a r st) = map_ok (reframe q a r) (h cx kind event st)"
  using assms
  by (elim insertE emptyE) (simp_all add: on_step_started_def on_budget_charged_def on_llm_call_def
      on_repair_attempt_started_def on_regenerate_attempt_started_def reframe cong: option.case_cong)

lemma handler_reframe [reframe]:
  "on_run_resumed cx kind event (reframe q a r st) = map_ok (reframe q a r) (on_run_resumed cx kind event st)"
  "on_run_ended cx kind event (reframe q a r st) = map_ok (reframe q a r) (on_run_ended cx kind event st)"
  "on_step_finished cx kind event (reframe q a r st) = map_ok (reframe q a r) (on_step_finished cx kind event st)"
  "on_mcp_continuation_consumed cx kind event (reframe q a r st)
     = map_ok (reframe q a r) (on_mcp_continuation_consumed cx kind event st)"
  "on_hook_skipped cx kind event (reframe q a r st) = map_ok (reframe q a r) (on_hook_skipped cx kind event st)"
  by (simp_all add: on_run_resumed_def on_run_ended_def on_step_finished_def on_mcp_continuation_consumed_def
      on_hook_skipped_def reframe split: option.split)

lemma on_task_joined_reframe [reframe]:
  "on_task_joined cx kind event (reframe q a r st) = map_ok (reframe q a r) (on_task_joined cx kind event st)"
  by (simp add: on_task_joined_def and_then_if Let_def reframe cong: if_cong)

lemma on_state_patched_reframe [reframe]:
  "on_state_patched cx kind event (reframe q a r st) = map_ok (reframe q a r) (on_state_patched cx kind event st)"
  by (simp add: on_state_patched_def Let_def reframe cong: option.case_cong if_cong)

lemma on_hook_failed_reframe [reframe]:
  "on_hook_failed cx kind event (reframe q a r st) = map_ok (reframe q a r) (on_hook_failed cx kind event st)"
proof (cases "event_str event ''hook''")
  case None
  then show ?thesis by (simp add: on_hook_failed_def)
next
  case (Some hook)
  define c where "c \<longleftrightarrow> get_path (vars st) (''steps.'' @ hook @ ''.status'') = None"
  define w where "w \<longleftrightarrow> event_str event ''policy'' = Some ''warn''"
  define d where "d = Some (failure_value (failure_detail_new ExecutionFailed
    (unwrap_or (event_str event ''error'') ''hook execution failed'')))"
  show ?thesis
    unfolding on_hook_failed_def Some option.case Let_def reframe_sel c_def [symmetric] w_def [symmetric] d_def [symmetric]
    by (cases c; cases w) (simp_all add: reframe)
qed

lemma on_agent_file_changes_reframe [reframe]:
  "on_agent_file_changes cx kind event (reframe q a r st) = map_ok (reframe q a r) (on_agent_file_changes cx kind event st)"
proof -
  have "(case d of AgentFileChanges removed written \<Rightarrow>
          and_then (ensure (list_all is_safe_relative_path (removed @ written)) (InvalidEvent UnsafeFileChange)) (\<lambda>_.
          Inr (fold restore_file written (fold remove_file removed (reframe q a r st))))
      | _ \<Rightarrow> Inl (InvalidEvent InvalidFileChanges)) = map_ok (reframe q a r) (case d of AgentFileChanges removed written \<Rightarrow>
          and_then (ensure (list_all is_safe_relative_path (removed @ written)) (InvalidEvent UnsafeFileChange)) (\<lambda>_.
          Inr (fold restore_file written (fold remove_file removed st)))
      | _ \<Rightarrow> Inl (InvalidEvent InvalidFileChanges))" for d
    by (cases d) (simp_all add: reframe)
  then show ?thesis by (simp add: on_agent_file_changes_def)
qed

lemma on_step_skipped_reframe [reframe]:
  "on_step_skipped cx kind event (reframe q a r st) = map_ok (reframe q a r) (on_step_skipped cx kind event st)"
  by (simp add: on_step_skipped_def Let_def reframe cong: option.case_cong if_cong)

lemma on_request_reframe [reframe]:
  "on_request cx kind event (reframe q a r st) = map_ok (reframe q a r) (on_request cx kind event st)"
  by (simp add: on_request_def and_then_if reframe cong: if_cong)

lemma on_response_eq:
  "on_response cx kind event st =
     and_then (ok_or (event_str event (if kind = ''user_answered'' then ''question_id'' else ''confirmation_id''))
        (InvalidEvent (ResponseIdRequired kind (if kind = ''user_answered'' then ''question_id'' else ''confirmation_id''))))
       (\<lambda>nid. and_then (record_response kind event nid
          (st\<lparr>queued_at := or_else (event_str event ''queued_at'') (event_str event ''ts'')\<rparr>))
        (\<lambda>st. Inr ((drop_answered kind event st)\<lparr>terminal := None\<rparr>)))"
  unfolding on_response_def drop_answered_def Let_def by (rule refl)

lemma on_response_reframe [reframe]:
  "on_response cx kind event (reframe q a r st) = map_ok (reframe q a r) (on_response cx kind event st)"
  by (simp add: on_response_eq reframe)

lemma operation_reframe [reframe]:
  "on_operation_started cx kind event (reframe q a r st) = map_ok (reframe q a r) (on_operation_started cx kind event st)"
  "on_operation_finished cx kind event (reframe q a r st) = map_ok (reframe q a r) (on_operation_finished cx kind event st)"
  by (simp_all add: on_operation_started_def on_operation_finished_def Let_def reframe cong: option.case_cong if_cong)

lemma on_admission_eq:
  "on_admission cx kind event st =
     and_then (admission_mode event) (\<lambda>mode.
     and_then (admit_ledger mode st) (\<lambda>st.
     and_then (admit_identity event st) (\<lambda>st.
     Inr (admit_rest (kind = ''run_queued'') (kind = ''run_started'') event st))))"
  unfolding on_admission_def admit_rest_def Let_def by (rule refl)

lemma admit_rest_reframe [reframe]:
  "admit_rest b c event (reframe q a r st) = reframe q a r (admit_rest b c event st)"
  unfolding admit_rest_def Let_def by (cases b; cases c) (simp_all add: reframe)

section \<open>Dispatch\<close>

definition plain :: "handler \<Rightarrow> bool" where
  \<comment> \<open>the handler neither reads nor changes the bookkeeping\<close>
  "plain h \<longleftrightarrow> (\<forall>cx kind event q a r st.
     h cx kind event (reframe q a r st) = map_ok (reframe q a r) (h cx kind event st))"

lemma plain_handlers:
  assumes "(kind, h) \<in> set handlers"
  shows "plain h \<or> h \<in> {on_admission, on_elapsed_accounted, on_run_forked}"
  using assms
proof (cases rule: handlers_cases)
  case 1
  then show ?thesis using idle_reframe unfolding plain_def by blast
next
  case 2
  then show ?thesis using budget_reframe unfolding plain_def by blast
qed (simp_all add: plain_def reframe)

lemma reframe_same: "reframe (last_seq st) (audit_seq st) (run_id st) st = st"
  by (simp add: reframe_def)

lemma plain_keeps:
  assumes "plain h" "h cx kind event st = Inr st'"
  shows "run_id st' = run_id st \<and> audit_seq st' = audit_seq st \<and> last_seq st' = last_seq st"
proof -
  have "map_ok (reframe (last_seq st) (audit_seq st) (run_id st)) (Inr st') = (Inr st' :: journal_error + run_state)"
    using assms(1) [unfolded plain_def, rule_format, of cx kind event _ _ _ st] assms(2) reframe_same [of st] by metis
  then have "st' = reframe (last_seq st) (audit_seq st) (run_id st) st'" by simp
  then show ?thesis by (metis reframe_bookkeeping(1-3))
qed

definition rebook :: "nat \<Rightarrow> nat \<Rightarrow> run_state \<Rightarrow> run_state" where
  \<comment> \<open>overwrite both sequence numbers\<close>
  "rebook q a st = reframe q a (run_id st) st"

lemma plain_rebook:
  assumes "plain h"
  shows "h cx kind event (rebook q a st) = map_ok (rebook q a) (h cx kind event st)"
  using assms [unfolded plain_def, rule_format, of cx kind event q a "run_id st" st] plain_keeps [OF assms, of cx kind event st]
  by (cases "h cx kind event st") (simp_all add: rebook_def)

lemma admit_ledger_run_id: "admit_ledger mode st = Inr st' \<Longrightarrow> run_id st' = run_id st"
  by (erule admit_ledger_Inr) simp_all

lemma special_rebook:
  assumes "h \<in> {on_admission, on_elapsed_accounted, on_run_forked}"
  shows "h cx kind event (rebook q a st) = map_ok (rebook q a) (h cx kind event st)"
proof -
  have identity: "admit_identity event (rebook q a st) = map_ok (rebook q a) (admit_identity event st)" for st
    by (cases st) (simp add: admit_identity_def rebook_def reframe_def)
  have ledger: "admit_ledger mode (rebook q a st) = map_ok (rebook q a) (admit_ledger mode st)" for mode st
    using admission_reframe(1) [of mode q a "run_id st" st] admit_ledger_run_id [of mode st]
    by (cases "admit_ledger mode st") (simp_all add: rebook_def)
  have rest: "admit_rest b c event (rebook q a st) = rebook q a (admit_rest b c event st)" for b c st
    using admit_rest_reframe [of b c event "last_seq st" "audit_seq st" "run_id st" st] reframe_same [of st]
    by (metis admit_rest_reframe rebook_def reframe_bookkeeping(3))
  from assms show ?thesis
  proof (elim insertE emptyE)
    assume "h = on_admission"
    then show ?thesis by (simp add: on_admission_eq identity ledger rest)
  qed (simp_all add: on_elapsed_accounted_def on_run_forked_def rebook_def reframe)
qed

lemma dispatch_rebook: "dispatch cx kind event (rebook q a st) = map_ok (rebook q a) (dispatch cx kind event st)"
proof (cases "map_of handlers kind")
  case (Some h)
  then show ?thesis using plain_handlers [of kind h] plain_rebook special_rebook
    by (auto simp: dispatch_def dest!: map_of_SomeD)
qed (simp add: dispatch_def)

section \<open>Observation streams and durable journals\<close>

definition set_audit_seq :: "nat \<Rightarrow> run_state \<Rightarrow> run_state" where
  "set_audit_seq a st = st\<lparr>audit_seq := a\<rparr>"

lemma rebook_sel [simp]:
  "run_id (rebook q a st) = run_id st" "budget (rebook q a st) = budget st" "terminal (rebook q a st) = terminal st"
  "last_seq (rebook q a st) = q" "audit_seq (rebook q a st) = a"
  by (simp_all add: rebook_def)

lemma set_audit_seq_rebook: "set_audit_seq a st = rebook (last_seq st) a st"
  by (simp add: set_audit_seq_def rebook_def reframe_def)

lemma dispatch_seq: "dispatch cx kind event st = Inr st' \<Longrightarrow> last_seq st' = last_seq st"
  by (erule dispatch_cases) (auto dest: handler_seq)

lemma note_search_cost_rebook:
  "note_search_cost kind event (rebook q a st) = rebook q a (note_search_cost kind event st)"
  by (simp add: note_search_cost_def rebook_def reframe)

text \<open>The position of the observation stream has no influence on how an event applies.\<close>

lemma apply_event_audit:
  "apply_event cx event (set_audit_seq a st) = map_ok (set_audit_seq a) (apply_event cx event st)"
proof -
  have accept: "accept_seq event (set_audit_seq a st) = map_ok (set_audit_seq a) (accept_seq event st)"
    by (simp add: accept_seq_def set_audit_seq_def split: option.split)
  have tail: "dispatch cx kind event (note_search_cost kind event (set_audit_seq a st))
    = map_ok (set_audit_seq a) (dispatch cx kind event (note_search_cost kind event st))" for kind st
    using dispatch_rebook [of cx kind event "last_seq st" a "note_search_cost kind event st"]
      dispatch_seq [of cx kind event "note_search_cost kind event st"]
    by (cases "dispatch cx kind event (note_search_cost kind event st)")
      (auto simp: set_audit_seq_rebook note_search_cost_rebook)
  have same: "check_owner kind event (set_audit_seq a st) = check_owner kind event st"
    "is_final (set_audit_seq a st) = is_final st" for kind st
    by (simp_all add: check_owner_def is_final_def set_audit_seq_def)
  show ?thesis unfolding apply_event_def by (simp add: accept tail same)
qed

lemma fold_from_audit:
  "fold_from cx (set_audit_seq a st) events = map_ok (set_audit_seq a) (fold_from cx st events)"
proof (induction events arbitrary: st)
  case (Cons event events)
  then show ?case by (simp add: apply_event_audit)
qed simp

end
