(* ===== verification/Spec2Isabelle.thy ===== *)
theory Spec2Isabelle
  imports ValueBag Graph PathPolicy RunAccounts RateLimit Anchored RunFrame
begin

text \<open>
  A verification of the decision-making core of qcg, a runtime for generator packages.
\<close>

end
